theory Spec2Isabelle
  imports Complex_Main "HOL-Library.Word" "HOL-Library.AList"
begin

unbundle bit_operations_syntax

section \<open>Python values shared by the models\<close>

text \<open>
  A Python \<open>str\<close> is a \<open>string\<close>: a list of characters, each a code point below 256.
  A \<open>bytes\<close> object is a list of 8-bit words. Exceptions are values of \<open>py_exc\<close>; a
  function that may raise returns \<open>py_exc + 'a\<close>, with \<open>Inl\<close> for the exception that
  reaches the caller.
\<close>

type_synonym byte = "8 word"

datatype py_exc =
    ValueError
  | KeyError
  | TypeError
  | IndexError
  | AttributeError
  | UnicodeDecodeError
  | RecursionError
  | RequestException string
  | RedisError string

section \<open>The bounded in-memory caches\<close>

text \<open>
  \<open>cache/memory_cache.py\<close> (class \<open>MemoryCache\<close>) and \<open>api/huggingface.py\<close> (class
  \<open>SimpleCache\<close>). The attribute \<open>self.cache\<close> is a Python dict from key to
  \<open>(value, timestamp)\<close>. A dict iterates in insertion order, assigning to a present key
  keeps its position, and \<open>min\<close> returns the first minimal item of the iteration, so the
  dict is an association list: \<open>AList.update\<close> is \<open>d[k] = x\<close>, \<open>AList.delete\<close> is
  \<open>del d[k]\<close>, \<open>map_of\<close> is the lookup. Each reading of \<open>time.time()\<close> is the argument
  \<open>now\<close>; timestamps are real numbers. The lock and the log lines are left out.
\<close>

record bounded_cache =
  cache :: "(string \<times> (string \<times> real)) list"
  max_size :: int
  ttl :: int

text \<open>
  \<open>min(self.cache.items(), key=lambda x: x[1][1])\<close> on a non-empty sequence: the running
  best is replaced only by an item with a strictly smaller timestamp.
\<close>

fun py_min :: "(string \<times> (string \<times> real)) \<Rightarrow> (string \<times> (string \<times> real)) list
    \<Rightarrow> (string \<times> (string \<times> real))" where
  "py_min best [] = best"
| "py_min best (x # xs) = py_min (if snd (snd x) < snd (snd best) then x else best) xs"

definition MemoryCache_get :: "bounded_cache \<Rightarrow> real \<Rightarrow> string \<Rightarrow> string option \<times> bounded_cache" where
  "MemoryCache_get c now key =
     (case map_of (cache c) key of
        Some (val, timestamp) \<Rightarrow>
          if now - timestamp < real_of_int (ttl c) then (Some val, c)
          else (None, c\<lparr>cache := AList.delete key (cache c)\<rparr>)
      | None \<Rightarrow> (None, c))"

text \<open>\<open>min\<close> of an empty sequence raises \<open>ValueError\<close>; nothing in \<open>setex\<close> catches it.\<close>

definition MemoryCache_setex ::
    "bounded_cache \<Rightarrow> real \<Rightarrow> string \<Rightarrow> int \<Rightarrow> string \<Rightarrow> py_exc + bounded_cache" where
  "MemoryCache_setex c now key expire_time val =
     (if int (length (cache c)) \<ge> max_size c then
        (case cache c of
           [] \<Rightarrow> Inl ValueError
         | x # xs \<Rightarrow>
             let oldest = fst (py_min x xs)
             in Inr (c\<lparr>cache := AList.update key (val, now) (AList.delete oldest (cache c))\<rparr>))
      else Inr (c\<lparr>cache := AList.update key (val, now) (cache c)\<rparr>))"

definition MemoryCache_clear :: "bounded_cache \<Rightarrow> bounded_cache" where
  "MemoryCache_clear c = c\<lparr>cache := []\<rparr>"

definition SimpleCache_get :: "bounded_cache \<Rightarrow> real \<Rightarrow> string \<Rightarrow> string option \<times> bounded_cache" where
  "SimpleCache_get c now key =
     (case map_of (cache c) key of
        Some (val, timestamp) \<Rightarrow>
          if now - timestamp < real_of_int (ttl c) then (Some val, c)
          else (None, c\<lparr>cache := AList.delete key (cache c)\<rparr>)
      | None \<Rightarrow> (None, c))"

definition SimpleCache_setex ::
    "bounded_cache \<Rightarrow> real \<Rightarrow> string \<Rightarrow> int \<Rightarrow> string \<Rightarrow> py_exc + bounded_cache" where
  "SimpleCache_setex c now key expire_time val =
     (if int (length (cache c)) \<ge> max_size c then
        (case cache c of
           [] \<Rightarrow> Inl ValueError
         | x # xs \<Rightarrow>
             let oldest = fst (py_min x xs)
             in Inr (c\<lparr>cache := AList.update key (val, now) (AList.delete oldest (cache c))\<rparr>))
      else Inr (c\<lparr>cache := AList.update key (val, now) (cache c)\<rparr>))"

definition SimpleCache_clear :: "bounded_cache \<Rightarrow> bounded_cache" where
  "SimpleCache_clear c = c\<lparr>cache := []\<rparr>"

text \<open>
  A run of \<open>setex\<close> calls, one after the other, each with its own clock reading; the
  first exception ends the run.
\<close>

fun setex_all ::
    "(bounded_cache \<Rightarrow> real \<Rightarrow> string \<Rightarrow> int \<Rightarrow> string \<Rightarrow> py_exc + bounded_cache)
     \<Rightarrow> bounded_cache \<Rightarrow> (real \<times> string \<times> int \<times> string) list \<Rightarrow> py_exc + bounded_cache" where
  "setex_all setex c [] = Inr c"
| "setex_all setex c ((now, key, expire_time, val) # calls) =
     (case setex c now key expire_time val of
        Inl e \<Rightarrow> Inl e
      | Inr c' \<Rightarrow> setex_all setex c' calls)"

section \<open>Library functions the key derivation calls\<close>

subsection \<open>\<open>str.encode()\<close>: UTF-8\<close>

text \<open>A code point below 128 is one byte, one from 128 to 255 is two.\<close>

definition utf8_char :: "char \<Rightarrow> byte list" where
  "utf8_char c =
     (let n = (of_char c :: nat)
      in if n < 128 then [of_nat n] else [of_nat (192 + n div 64), of_nat (128 + n mod 64)])"

definition encode :: "string \<Rightarrow> byte list" where
  "encode s = concat (map utf8_char s)"

subsection \<open>\<open>hashlib.md5(...).hexdigest()\<close>\<close>

text \<open>
  The MD5 algorithm as RFC 1321 gives it: 32-bit words, little-endian, 64 steps per
  512-bit block; \<open>md5_K\<close> is the table of \<open>floor (2^32 * abs (sin (i + 1)))\<close>, \<open>md5_S\<close> the
  rotation amounts.
\<close>

type_synonym u32 = "32 word"

definition rotl32 :: "nat \<Rightarrow> u32 \<Rightarrow> u32" where
  "rotl32 n w = (push_bit n w) OR (drop_bit (32 - n) w)"

definition md5_K :: "u32 list" where
  "md5_K = [
   0xd76aa478, 0xe8c7b756, 0x242070db, 0xc1bdceee, 0xf57c0faf, 0x4787c62a, 0xa8304613, 0xfd469501,
   0x698098d8, 0x8b44f7af, 0xffff5bb1, 0x895cd7be, 0x6b901122, 0xfd987193, 0xa679438e, 0x49b40821,
   0xf61e2562, 0xc040b340, 0x265e5a51, 0xe9b6c7aa, 0xd62f105d, 0x02441453, 0xd8a1e681, 0xe7d3fbc8,
   0x21e1cde6, 0xc33707d6, 0xf4d50d87, 0x455a14ed, 0xa9e3e905, 0xfcefa3f8, 0x676f02d9, 0x8d2a4c8a,
   0xfffa3942, 0x8771f681, 0x6d9d6122, 0xfde5380c, 0xa4beea44, 0x4bdecfa9, 0xf6bb4b60, 0xbebfbc70,
   0x289b7ec6, 0xeaa127fa, 0xd4ef3085, 0x04881d05, 0xd9d4d039, 0xe6db99e5, 0x1fa27cf8, 0xc4ac5665,
   0xf4292244, 0x432aff97, 0xab9423a7, 0xfc93a039, 0x655b59c3, 0x8f0ccc92, 0xffeff47d, 0x85845dd1,
   0x6fa87e4f, 0xfe2ce6e0, 0xa3014314, 0x4e0811a1, 0xf7537e82, 0xbd3af235, 0x2ad7d2bb, 0xeb86d391]"

definition md5_S :: "nat list" where
  "md5_S = [7, 12, 17, 22, 7, 12, 17, 22, 7, 12, 17, 22, 7, 12, 17, 22,
            5, 9, 14, 20, 5, 9, 14, 20, 5, 9, 14, 20, 5, 9, 14, 20,
            4, 11, 16, 23, 4, 11, 16, 23, 4, 11, 16, 23, 4, 11, 16, 23,
            6, 10, 15, 21, 6, 10, 15, 21, 6, 10, 15, 21, 6, 10, 15, 21]"

definition md5_f :: "nat \<Rightarrow> u32 \<Rightarrow> u32 \<Rightarrow> u32 \<Rightarrow> u32" where
  "md5_f i b c d =
     (if i < 16 then (b AND c) OR (NOT b AND d)
      else if i < 32 then (d AND b) OR (NOT d AND c)
      else if i < 48 then b XOR c XOR d
      else c XOR (b OR NOT d))"

definition md5_g :: "nat \<Rightarrow> nat" where
  "md5_g i =
     (if i < 16 then i
      else if i < 32 then (5 * i + 1) mod 16
      else if i < 48 then (3 * i + 5) mod 16
      else (7 * i) mod 16)"

type_synonym md5_state = "u32 \<times> u32 \<times> u32 \<times> u32"

fun md5_step :: "u32 list \<Rightarrow> md5_state \<Rightarrow> nat \<Rightarrow> md5_state" where
  "md5_step m (a, b, c, d) i =
     (d, b + rotl32 (md5_S ! i) (a + md5_f i b c d + md5_K ! i + m ! md5_g i), b, c)"

definition md5_block :: "md5_state \<Rightarrow> u32 list \<Rightarrow> md5_state" where
  "md5_block st m =
     (case st of (a0, b0, c0, d0) \<Rightarrow>
        (case foldl (md5_step m) st [0..<64] of (a, b, c, d) \<Rightarrow>
           (a0 + a, b0 + b, c0 + c, d0 + d)))"

fun le_word :: "byte list \<Rightarrow> u32" where
  "le_word [b0, b1, b2, b3] =
     ucast b0 OR push_bit 8 (ucast b1) OR push_bit 16 (ucast b2) OR push_bit 24 (ucast b3)"
| "le_word _ = 0"

fun chunks :: "nat \<Rightarrow> nat \<Rightarrow> 'a list \<Rightarrow> 'a list list" where
  "chunks 0 n xs = []"
| "chunks (Suc k) n xs = take n xs # chunks k n (drop n xs)"

definition le_bytes :: "nat \<Rightarrow> 'a::len word \<Rightarrow> byte list" where
  "le_bytes k w = map (\<lambda>i. ucast (drop_bit (8 * i) w)) [0..<k]"

definition md5_pad :: "byte list \<Rightarrow> byte list" where
  "md5_pad bs =
     (let n = length bs;
          z = (119 - n mod 64) mod 64;
          bits = (of_nat (8 * n) :: 64 word)
      in bs @ [0x80] @ replicate z 0 @ le_bytes 8 bits)"

definition md5_blocks :: "byte list \<Rightarrow> u32 list list" where
  "md5_blocks bs =
     (let p = md5_pad bs
      in map (\<lambda>blk. map le_word (chunks 16 4 blk)) (chunks (length p div 64) 64 p))"

definition md5_digest :: "byte list \<Rightarrow> byte list" where
  "md5_digest bs =
     (case foldl md5_block (0x67452301, 0xefcdab89, 0x98badcfe, 0x10325476) (md5_blocks bs)
      of (a, b, c, d) \<Rightarrow> le_bytes 4 a @ le_bytes 4 b @ le_bytes 4 c @ le_bytes 4 d)"

definition hex_digit :: "nat \<Rightarrow> char" where
  "hex_digit n = ''0123456789abcdef'' ! n"

definition hexdigest :: "byte list \<Rightarrow> string" where
  "hexdigest bs = concat (map (\<lambda>b. [hex_digit (unat b div 16), hex_digit (unat b mod 16)]) bs)"

subsection \<open>\<open>json.dumps(..., sort_keys=True)\<close>\<close>

text \<open>
  With the default \<open>ensure_ascii\<close>, a string is written between double quotes, the
  backslash, the double quote and five control characters with their two-character
  escapes, every other character outside the range from space to tilde as
  \<open>\u00XX\<close>. The default separators are \<open>", "\<close> and \<open>": "\<close>.
\<close>

definition hex4 :: "nat \<Rightarrow> string" where
  "hex4 n = [hex_digit (n div 4096 mod 16), hex_digit (n div 256 mod 16),
             hex_digit (n div 16 mod 16), hex_digit (n mod 16)]"

definition json_escape_char :: "char \<Rightarrow> string" where
  "json_escape_char c =
     (if c = CHR 0x5C then [CHR 0x5C, CHR 0x5C]
      else if c = CHR 0x22 then [CHR 0x5C, CHR 0x22]
      else if c = CHR 0x08 then [CHR 0x5C, CHR ''b'']
      else if c = CHR 0x0C then [CHR 0x5C, CHR ''f'']
      else if c = CHR 0x0A then [CHR 0x5C, CHR ''n'']
      else if c = CHR 0x0D then [CHR 0x5C, CHR ''r'']
      else if c = CHR 0x09 then [CHR 0x5C, CHR ''t'']
      else if (of_char c :: nat) < 32 \<or> 126 < (of_char c :: nat)
        then [CHR 0x5C, CHR ''u''] @ hex4 (of_char c)
      else [c])"

definition dumps_str :: "string \<Rightarrow> string" where
  "dumps_str s = [CHR 0x22] @ concat (map json_escape_char s) @ [CHR 0x22]"

text \<open>\<open>sep.join(parts)\<close>.\<close>

fun join :: "string \<Rightarrow> string list \<Rightarrow> string" where
  "join sep [] = []"
| "join sep [x] = x"
| "join sep (x # y # ys) = x @ sep @ join sep (y # ys)"

text \<open>
  A parameter value is an \<open>int\<close>, a \<open>bool\<close> or a \<open>float\<close>. Only the text that
  \<open>json.dumps\<close> writes for a float is observed here, so a float is that text (\<open>0.7\<close>,
  \<open>1e-05\<close>, \<open>NaN\<close>).
\<close>

datatype pval = PInt int | PFloat string | PBool bool

fun decimal :: "nat \<Rightarrow> string" where
  "decimal n = (if n < 10 then [hex_digit n] else decimal (n div 10) @ [hex_digit (n mod 10)])"

declare decimal.simps [simp del]

definition dumps_int :: "int \<Rightarrow> string" where
  "dumps_int i = (if i < 0 then ''-'' @ decimal (nat (- i)) else decimal (nat i))"

fun dumps_pval :: "pval \<Rightarrow> string" where
  "dumps_pval (PInt i) = dumps_int i"
| "dumps_pval (PFloat repr) = repr"
| "dumps_pval (PBool b) = (if b then ''true'' else ''false'')"



text \<open>
  A dict with string keys is an association list in insertion order; \<open>sort_keys\<close> writes
  its items in the order of their keys, strings compared code point by code point.
\<close>

fun str_less :: "string \<Rightarrow> string \<Rightarrow> bool" where
  "str_less [] [] = False"
| "str_less [] (y # ys) = True"
| "str_less (x # xs) [] = False"
| "str_less (x # xs) (y # ys) =
     ((of_char x :: nat) < of_char y \<or> (x = y \<and> str_less xs ys))"

fun insert_item :: "string \<times> 'v \<Rightarrow> (string \<times> 'v) list \<Rightarrow> (string \<times> 'v) list" where
  "insert_item p [] = [p]"
| "insert_item p (q # qs) =
     (if str_less (fst q) (fst p) then q # insert_item p qs else p # q # qs)"

definition sort_items :: "(string \<times> 'v) list \<Rightarrow> (string \<times> 'v) list" where
  "sort_items ps = foldr insert_item ps []"

definition dumps_params :: "(string \<times> pval) list \<Rightarrow> string" where
  "dumps_params ps =
     ''{'' @ join '', '' (map (\<lambda>(k, v). dumps_str k @ '': '' @ dumps_pval v) (sort_items ps)) @ ''}''"

section \<open>The session state and the cache key\<close>

text \<open>
  \<open>st.session_state\<close>: the chat history (absent until the page sets it), the four
  sidebar values and the two token counters, each absent or set.
\<close>

record message =
  role :: string
  content :: string

record session_state =
  messages :: "message list option"
  max_tokens :: "pval option"
  temperature :: "pval option"
  top_p :: "pval option"
  rep_penalty :: "pval option"
  total_tokens_sent :: "int option"
  total_tokens_received :: "int option"

text \<open>\<open>xs[i:j]\<close>, with negative indices counted from the end.\<close>

definition py_slice :: "'a list \<Rightarrow> int \<Rightarrow> int \<Rightarrow> 'a list" where
  "py_slice xs i j =
     (let n = int (length xs);
          a = (if i < 0 then max 0 (n + i) else min i n);
          b = (if j < 0 then max 0 (n + j) else min j n)
      in take (nat (b - a)) (drop (nat a) xs))"

definition last_messages :: "message list \<Rightarrow> message list" where
  "last_messages ms = (if length ms > 1 then py_slice ms (- 10) (- 1) else [])"

text \<open>The dict \<open>{"role": ..., "content": ...}\<close> written with sorted keys.\<close>

definition dumps_message :: "message \<Rightarrow> string" where
  "dumps_message m =
     ''{'' @ dumps_str ''content'' @ '': '' @ dumps_str (content m) @ '', ''
          @ dumps_str ''role'' @ '': '' @ dumps_str (role m) @ ''}''"

definition dumps_messages :: "message list \<Rightarrow> string" where
  "dumps_messages ms = ''['' @ join '', '' (map dumps_message ms) @ '']''"

text \<open>The local variable \<open>context\<close> of \<open>_get_cache_key\<close>.\<close>

definition cache_context :: "session_state \<Rightarrow> string" where
  "cache_context st =
     (case messages st of
        None \<Rightarrow> []
      | Some ms \<Rightarrow>
          if ms = [] then []
          else dumps_messages
                 (map (\<lambda>msg. \<lparr>role = role msg, content = take 100 (content msg)\<rparr>)
                    (last_messages ms)))"

definition key_content :: "session_state \<Rightarrow> string \<Rightarrow> (string \<times> pval) list \<Rightarrow> string" where
  "key_content st prompt params =
     ''v1:'' @ prompt @ '':'' @ cache_context st @ '':'' @ dumps_params params"

definition get_cache_key :: "session_state \<Rightarrow> string \<Rightarrow> (string \<times> pval) list \<Rightarrow> string" where
  "get_cache_key st prompt params =
     ''hf_cache:'' @ hexdigest (md5_digest (encode (key_content st prompt params)))"

definition get_params :: "session_state \<Rightarrow> (string \<times> pval) list" where
  "get_params st =
     [(''max_new_tokens'', case max_tokens st of None \<Rightarrow> PInt 1024 | Some v \<Rightarrow> v),
      (''temperature'', case temperature st of None \<Rightarrow> PFloat ''0.7'' | Some v \<Rightarrow> v),
      (''top_p'', case top_p st of None \<Rightarrow> PFloat ''0.9'' | Some v \<Rightarrow> v),
      (''repetition_penalty'', case rep_penalty st of None \<Rightarrow> PFloat ''1.1'' | Some v \<Rightarrow> v),
      (''do_sample'', PBool True),
      (''return_full_text'', PBool False)]"

text \<open>
  The first lines of \<open>generate\<close> and of \<open>generate_stream\<close>: the key each of them looks
  up and writes under. The streaming one sets \<open>params["stream"] = True\<close> first.
\<close>

definition generate_cache_key :: "session_state \<Rightarrow> string \<Rightarrow> string" where
  "generate_cache_key st prompt = get_cache_key st prompt (get_params st)"

definition generate_stream_params :: "session_state \<Rightarrow> (string \<times> pval) list" where
  "generate_stream_params st = AList.update ''stream'' (PBool True) (get_params st)"

definition generate_stream_cache_key :: "session_state \<Rightarrow> string \<Rightarrow> string" where
  "generate_stream_cache_key st prompt = get_cache_key st prompt (generate_stream_params st)"

text \<open>A session in which nothing has been set yet.\<close>

definition empty_session :: session_state where
  "empty_session =
     \<lparr>messages = None, max_tokens = None, temperature = None, top_p = None,
      rep_penalty = None, total_tokens_sent = None, total_tokens_received = None\<rparr>"

text \<open>
  The words of the specification, for comparison with the code: the history is the list
  of messages, the live prompt last; its trailing window is the last nine messages before
  the live prompt, each as its role and its content cut to 100 characters.
\<close>

definition session_history :: "session_state \<Rightarrow> message list" where
  "session_history st = (case messages st of None \<Rightarrow> [] | Some ms \<Rightarrow> ms)"

definition trailing_window :: "message list \<Rightarrow> (string \<times> string) list" where
  "trailing_window history =
     map (\<lambda>m. (role m, take 100 (content m)))
       (drop (length (butlast history) - 9) (butlast history))"

section \<open>The API client\<close>

subsection \<open>The Redis server behind \<open>redis_client\<close>\<close>

text \<open>
  The server is not part of the repository. It is modelled as far as the client's three
  calls show it: it is reachable or not, a call to an unreachable server raises, and a
  reachable one holds strings under keys (\<open>REDIS_CONFIG\<close> sets \<open>decode_responses\<close>, so
  a reply is a \<open>str\<close>). The expiry of entries happens inside the server and is left out.
\<close>

record redis =
  reachable :: bool
  held :: "(string \<times> string) list"

definition redis_get :: "redis \<Rightarrow> string \<Rightarrow> py_exc + string option" where
  "redis_get r key =
     (if reachable r then Inr (map_of (held r) key) else Inl (RedisError ''ConnectionError''))"

definition redis_setex :: "redis \<Rightarrow> string \<Rightarrow> int \<Rightarrow> string \<Rightarrow> py_exc + redis" where
  "redis_setex r key expire_time val =
     (if reachable r then Inr (r\<lparr>held := AList.update key val (held r)\<rparr>)
      else Inl (RedisError ''ConnectionError''))"

definition redis_flushall :: "redis \<Rightarrow> py_exc + redis" where
  "redis_flushall r =
     (if reachable r then Inr (r\<lparr>held := []\<rparr>) else Inl (RedisError ''ConnectionError''))"

subsection \<open>\<open>get_from_cache\<close>, \<open>save_to_cache\<close>, \<open>clear_cache\<close>\<close>

text \<open>
  \<open>HuggingFaceAPI\<close> keeps \<open>redis_client\<close> (\<open>None\<close> when the connection failed at start)
  and \<open>simple_cache\<close>. Each of the three methods runs in \<open>try ... except Exception\<close>.
\<close>

record hf_api =
  redis_client :: "redis option"
  simple_cache :: bounded_cache

definition CACHE_TTL :: int where
  "CACHE_TTL = 3600"

definition get_from_cache :: "hf_api \<Rightarrow> real \<Rightarrow> string \<Rightarrow> string option \<times> hf_api" where
  "get_from_cache api now cache_key =
     (case redis_client api of
        Some r \<Rightarrow>
          (case redis_get r cache_key of
             Inl e \<Rightarrow> (None, api)
           | Inr response \<Rightarrow> (response, api))
      | None \<Rightarrow>
          (case SimpleCache_get (simple_cache api) now cache_key of
             (response, c') \<Rightarrow> (response, api\<lparr>simple_cache := c'\<rparr>)))"

definition save_to_cache :: "hf_api \<Rightarrow> real \<Rightarrow> string \<Rightarrow> string \<Rightarrow> int \<Rightarrow> hf_api" where
  "save_to_cache api now cache_key response expire_time =
     (case redis_client api of
        Some r \<Rightarrow>
          (case redis_setex r cache_key expire_time response of
             Inl e \<Rightarrow> api
           | Inr r' \<Rightarrow> api\<lparr>redis_client := Some r'\<rparr>)
      | None \<Rightarrow>
          (case SimpleCache_setex (simple_cache api) now cache_key expire_time response of
             Inl e \<Rightarrow> api
           | Inr c' \<Rightarrow> api\<lparr>simple_cache := c'\<rparr>))"

definition clear_cache :: "hf_api \<Rightarrow> hf_api" where
  "clear_cache api =
     (case redis_client api of
        Some r \<Rightarrow>
          (case redis_flushall r of
             Inl e \<Rightarrow> api
           | Inr r' \<Rightarrow> api\<lparr>redis_client := Some r'\<rparr>)
      | None \<Rightarrow> api\<lparr>simple_cache := SimpleCache_clear (simple_cache api)\<rparr>)"

subsection \<open>\<open>format_prompt\<close> and the token counts\<close>

text \<open>\<open>len(s.split())\<close>: the number of maximal runs of characters that are not white space.\<close>

definition py_isspace :: "char \<Rightarrow> bool" where
  "py_isspace c = ((of_char c :: nat) \<in> {9, 10, 11, 12, 13, 28, 29, 30, 31, 32, 133, 160})"

fun count_words :: "bool \<Rightarrow> string \<Rightarrow> nat" where
  "count_words in_word [] = 0"
| "count_words in_word (c # cs) =
     (if py_isspace c then count_words False cs
      else (if in_word then 0 else 1) + count_words True cs)"

definition split_len :: "string \<Rightarrow> nat" where
  "split_len s = count_words False s"

definition format_prompt :: "session_state \<Rightarrow> string \<Rightarrow> string" where
  "format_prompt st text =
     (let nl = [CHR 0x0A];
          system_prompt = ''You are a helpful AI coding assistant. ''
                          @ ''You provide clear, concise, and accurate responses.'';
          conversation_context =
            (case messages st of
               None \<Rightarrow> []
             | Some ms \<Rightarrow>
                 if ms = [] then []
                 else concat (map (\<lambda>msg.
                        ''<|im_start|>'' @ (if role msg = ''user'' then ''user'' else ''assistant'')
                        @ nl @ content msg @ nl @ ''<|im_end|>'' @ nl) (last_messages ms)))
      in ''<|im_start|>system'' @ nl @ system_prompt @ nl @ ''<|im_end|>'' @ nl
         @ conversation_context @ ''<|im_start|>user'' @ nl @ text @ nl @ ''<|im_end|>'' @ nl
         @ ''<|im_start|>assistant'' @ nl)"

text \<open>The two counters are created at 0 when absent, then increased.\<close>

definition add_tokens :: "session_state \<Rightarrow> int \<Rightarrow> int \<Rightarrow> session_state" where
  "add_tokens st sent received =
     st\<lparr>total_tokens_sent :=
          Some ((case total_tokens_sent st of None \<Rightarrow> 0 | Some n \<Rightarrow> n) + sent),
        total_tokens_received :=
          Some ((case total_tokens_received st of None \<Rightarrow> 0 | Some n \<Rightarrow> n) + received)\<rparr>"

subsection \<open>The response stream\<close>

text \<open>
  What \<open>json.loads\<close> returns. \<open>json.loads\<close> itself is a parameter \<open>loads\<close> of the model:
  given the bytes of a line it returns a value or raises, \<open>JSONDecodeError\<close> for text
  that is not JSON, and \<open>UnicodeDecodeError\<close> for bytes that are not text at all.
\<close>

datatype json =
    JNull
  | JBool bool
  | JInt int
  | JFloat string
  | JStr string
  | JList "json list"
  | JDict "(string \<times> json) list"

datatype loads_error = JSONDecodeError | LoadsRaised py_exc

text \<open>
  The body of the \<open>try\<close> inside the loop, from \<open>chunk = json.loads(line)\<close> on: the
  fragments it yields and the new \<open>full_response\<close> and \<open>tokens_received\<close>. Adding a value
  that is not a \<open>str\<close> to \<open>full_response\<close> raises \<open>TypeError\<close>, before anything is
  yielded or counted.
\<close>

definition process_chunk ::
    "json \<Rightarrow> string \<times> int \<Rightarrow> py_exc + (string list \<times> string \<times> int)" where
  "process_chunk loaded acc =
     (case acc of (full_response, tokens_received) \<Rightarrow>
        let chunk = (case loaded of JList (first # rest) \<Rightarrow> first | _ \<Rightarrow> loaded)
        in case chunk of
             JDict d \<Rightarrow>
               (case map_of d ''generated_text'' of
                  Some generated \<Rightarrow>
                    (case generated of
                       JStr text \<Rightarrow>
                         Inr (map (\<lambda>char. [char]) text, full_response @ text,
                              tokens_received + int (split_len text))
                     | _ \<Rightarrow> Inl TypeError)
                | None \<Rightarrow>
                    (case map_of d ''token'' of
                       Some (JDict token) \<Rightarrow>
                         (case (case map_of token ''text'' of None \<Rightarrow> JStr [] | Some t \<Rightarrow> t) of
                            JStr text \<Rightarrow> Inr ([text], full_response @ text, tokens_received + 1)
                          | _ \<Rightarrow> Inl TypeError)
                     | _ \<Rightarrow> Inr ([], full_response, tokens_received)))
           | _ \<Rightarrow> Inr ([], full_response, tokens_received))"

text \<open>
  One turn of \<open>for line in response.iter_lines()\<close>. Blank lines and the line
  \<open>data: [DONE]\<close> are passed over; \<open>JSONDecodeError\<close>, \<open>KeyError\<close>, \<open>TypeError\<close> and
  \<open>IndexError\<close> are caught and the line is dropped; any other exception leaves the loop.
\<close>

definition process_line ::
    "(byte list \<Rightarrow> loads_error + json) \<Rightarrow> byte list \<Rightarrow> string \<times> int
     \<Rightarrow> py_exc + (string list \<times> string \<times> int)" where
  "process_line loads line acc =
     (if line = [] \<or> line = encode ''data: [DONE]'' then Inr ([], acc)
      else
        let payload = (if take 6 line = encode ''data: '' then drop 6 line else line)
        in case loads payload of
             Inl JSONDecodeError \<Rightarrow> Inr ([], acc)
           | Inl (LoadsRaised e) \<Rightarrow>
               if e \<in> {KeyError, TypeError, IndexError} then Inr ([], acc) else Inl e
           | Inr loaded \<Rightarrow>
               (case process_chunk loaded acc of
                  Inl e \<Rightarrow> if e \<in> {KeyError, TypeError, IndexError} then Inr ([], acc) else Inl e
                | Inr r \<Rightarrow> Inr r))"

text \<open>
  The whole loop over the lines that arrive: the fragments yielded, the accumulated text
  and count, and the exception that ended the loop, if one did.
\<close>

fun stream_loop ::
    "(byte list \<Rightarrow> loads_error + json) \<Rightarrow> byte list list \<Rightarrow> string \<times> int
     \<Rightarrow> string list \<times> (string \<times> int) \<times> py_exc option" where
  "stream_loop loads [] acc = ([], acc, None)"
| "stream_loop loads (line # lines) acc =
     (case process_line loads line acc of
        Inl e \<Rightarrow> ([], acc, Some e)
      | Inr (yielded, full_response, tokens_received) \<Rightarrow>
          (case stream_loop loads lines (full_response, tokens_received) of
             (later, acc', exc) \<Rightarrow> (yielded @ later, acc', exc)))"

text \<open>
  The remote endpoint as one call sees it: \<open>requests.post\<close> or \<open>raise_for_status\<close>
  raises a \<open>RequestException\<close> (with its message), or the response delivers lines and
  then either ends or breaks with a \<open>RequestException\<close>.
\<close>

datatype remote =
    PostRaises string
  | Streams "byte list list" "string option"

subsection \<open>\<open>generate_stream\<close>\<close>

text \<open>
  One complete run of the generator: every fragment it yields, in order, the exception
  that reaches the consumer (if any), and the client and the session state afterwards.
  \<open>t_lookup\<close> and \<open>t_save\<close> are the clock readings of the cache lookup and of the cache
  write. A \<open>RequestException\<close> anywhere inside is caught by the outer handler, which
  yields one fragment \<open>Error: ...\<close>; any other exception leaves the generator.
\<close>

record stream_result =
  fragments :: "string list"
  raised :: "py_exc option"
  api_after :: hf_api
  session_after :: session_state

definition generate_stream ::
    "hf_api \<Rightarrow> session_state \<Rightarrow> (byte list \<Rightarrow> loads_error + json) \<Rightarrow> remote
     \<Rightarrow> real \<Rightarrow> real \<Rightarrow> string \<Rightarrow> stream_result" where
  "generate_stream api st loads response t_lookup t_save prompt =
     (let formatted_prompt = format_prompt st prompt;
          tokens_sent = int (split_len formatted_prompt);
          cache_key = generate_stream_cache_key st prompt
      in case get_from_cache api t_lookup cache_key of
           (cached_response, api1) \<Rightarrow>
             if cached_response \<noteq> None \<and> cached_response \<noteq> Some [] then
               \<lparr>fragments = map (\<lambda>char. [char]) (the cached_response), raised = None,
                api_after = api1,
                session_after = add_tokens st tokens_sent (int (split_len (the cached_response)))\<rparr>
             else
               (case response of
                  PostRaises msg \<Rightarrow>
                    \<lparr>fragments = [''Error: '' @ msg], raised = None,
                     api_after = api1, session_after = st\<rparr>
                | Streams lines broken \<Rightarrow>
                    (case stream_loop loads lines ([], 0) of
                       (yielded, (full_response, tokens_received), exc) \<Rightarrow>
                         (case exc of
                            Some (RequestException msg) \<Rightarrow>
                              \<lparr>fragments = yielded @ [''Error: '' @ msg], raised = None,
                               api_after = api1, session_after = st\<rparr>
                          | Some e \<Rightarrow>
                              \<lparr>fragments = yielded, raised = Some e,
                               api_after = api1, session_after = st\<rparr>
                          | None \<Rightarrow>
                              (case broken of
                                 Some msg \<Rightarrow>
                                   \<lparr>fragments = yielded @ [''Error: '' @ msg], raised = None,
                                    api_after = api1, session_after = st\<rparr>
                               | None \<Rightarrow>
                                   if full_response \<noteq> [] then
                                     \<lparr>fragments = yielded, raised = None,
                                      api_after = save_to_cache api1 t_save cache_key
                                                    full_response CACHE_TTL,
                                      session_after = add_tokens st tokens_sent tokens_received\<rparr>
                                   else
                                     \<lparr>fragments = yielded, raised = None,
                                      api_after = api1, session_after = st\<rparr>)))))"

subsection \<open>Inputs for the examples\<close>

text \<open>
  A client on the in-memory backend with nothing cached, four lines a response may
  deliver, and \<open>json.loads\<close> on their payloads: two chunks with \<open>generated_text\<close>, text
  that is not JSON, and the byte \<open>0xFF\<close>, which is not UTF-8 and makes \<open>json.loads\<close> raise
  \<open>UnicodeDecodeError\<close>.
\<close>

definition fresh_api :: hf_api where
  "fresh_api = \<lparr>redis_client = None, simple_cache = \<lparr>cache = [], max_size = 1000, ttl = 3600\<rparr>\<rparr>"

definition line_hi :: "byte list" where
  \<open>line_hi = encode ''{"generated_text": "Hi"}''\<close>

definition line_there :: "byte list" where
  \<open>line_there = encode ''data: {"generated_text": " there"}''\<close>

definition line_not_json :: "byte list" where
  "line_not_json = encode ''not json''"

definition line_not_utf8 :: "byte list" where
  "line_not_utf8 = [0xFF]"

definition loads_example :: "byte list \<Rightarrow> loads_error + json" where
  \<open>loads_example payload =
     (if payload = encode ''{"generated_text": "Hi"}''
        then Inr (JDict [(''generated_text'', JStr ''Hi'')])
      else if payload = encode ''{"generated_text": " there"}''
        then Inr (JDict [(''generated_text'', JStr '' there'')])
      else if payload = [0xFF] then Inl (LoadsRaised UnicodeDecodeError)
      else Inl JSONDecodeError)\<close>

text \<open>A \<open>json.loads\<close> that knows the two chunks and takes everything else for broken JSON.\<close>

definition loads_chunks_only :: "byte list \<Rightarrow> loads_error + json" where
  \<open>loads_chunks_only payload =
     (if payload = encode ''{"generated_text": "Hi"}''
        then Inr (JDict [(''generated_text'', JStr ''Hi'')])
      else if payload = encode ''{"generated_text": " there"}''
        then Inr (JDict [(''generated_text'', JStr '' there'')])
      else Inl JSONDecodeError)\<close>

section \<open>Properties of the bounded caches\<close>

lemma SimpleCache_get_eq: "SimpleCache_get = MemoryCache_get"
  by (intro ext) (simp add: SimpleCache_get_def MemoryCache_get_def)

lemma SimpleCache_setex_eq: "SimpleCache_setex = MemoryCache_setex"
  by (intro ext) (simp add: SimpleCache_setex_def MemoryCache_setex_def)

lemma SimpleCache_clear_eq: "SimpleCache_clear = MemoryCache_clear"
  by (intro ext) (simp add: SimpleCache_clear_def MemoryCache_clear_def)

lemma py_min_mem: "py_min b xs \<in> set (b # xs)"
  by (induction xs arbitrary: b) auto

lemma py_min_le_best: "snd (snd (py_min b xs)) \<le> snd (snd b)"
proof (induction xs arbitrary: b)
  case Nil
  show ?case by simp
next
  case (Cons x xs)
  have "snd (snd (py_min (if snd (snd x) < snd (snd b) then x else b) xs))
        \<le> snd (snd (if snd (snd x) < snd (snd b) then x else b))"
    by (rule Cons.IH)
  also have "\<dots> \<le> snd (snd b)" by simp
  finally show ?case by simp
qed

lemma py_min_least: "y \<in> set (b # xs) \<Longrightarrow> snd (snd (py_min b xs)) \<le> snd (snd y)"
proof (induction xs arbitrary: b)
  case Nil
  then show ?case by simp
next
  case (Cons x xs)
  let ?b' = "if snd (snd x) < snd (snd b) then x else b"
  from Cons.prems consider "y = b" | "y = x" | "y \<in> set xs" by auto
  then show ?case
  proof cases
    case 1
    then show ?thesis using py_min_le_best [where xs = "x # xs" and b = b] by simp
  next
    case 2
    have "snd (snd (py_min ?b' xs)) \<le> snd (snd ?b')" by (rule py_min_le_best)
    also have "\<dots> \<le> snd (snd x)" by simp
    finally show ?thesis using 2 by simp
  next
    case 3
    then have "y \<in> set (?b' # xs)" by simp
    from Cons.IH [OF this] show ?thesis by simp
  qed
qed

lemma py_min_first: "\<forall>y \<in> set xs. snd (snd b) \<le> snd (snd y) \<Longrightarrow> py_min b xs = b"
  by (induction xs arbitrary: b) auto

lemma update_fresh: "k \<notin> fst ` set al \<Longrightarrow> AList.update k v al = al @ [(k, v)]"
  by (induction al) auto

lemma length_delete_present:
  "distinct (map fst al) \<Longrightarrow> k \<in> fst ` set al \<Longrightarrow> length (AList.delete k al) + 1 = length al"
proof (induction al)
  case Nil
  then show ?case by simp
next
  case (Cons p al)
  show ?case
  proof (cases "fst p = k")
    case True
    with Cons.prems have "k \<notin> fst ` set al" by auto
    then have "AList.delete k al = al" by simp
    with True show ?thesis by (cases p) (simp add: AList.delete_eq)
  next
    case False
    with Cons.prems have "k \<in> fst ` set al" and "distinct (map fst al)" by auto
    with Cons.IH have "length (AList.delete k al) + 1 = length al" by simp
    with False show ?thesis by (cases p) (simp add: AList.delete_eq)
  qed
qed

lemma delete_hd: "distinct (map fst (p # al)) \<Longrightarrow> AList.delete (fst p) (p # al) = al"
proof -
  assume "distinct (map fst (p # al))"
  then have "fst p \<notin> fst ` set al" by auto
  then have "AList.delete (fst p) al = al" by simp
  then show ?thesis by (cases p) (simp add: AList.delete_eq)
qed


lemma setex_all_append:
  "setex_all f c (xs @ ys) =
     (case setex_all f c xs of Inl e \<Rightarrow> Inl e | Inr c' \<Rightarrow> setex_all f c' ys)"
  by (induction xs arbitrary: c) (auto split: sum.splits)

lemma setex_below_capacity:
  "int (length (cache c)) < max_size c \<Longrightarrow> key \<notin> fst ` set (cache c) \<Longrightarrow>
   MemoryCache_setex c now key expire_time val = Inr (c\<lparr>cache := cache c @ [(key, (val, now))]\<rparr>)"
  by (simp add: MemoryCache_setex_def update_fresh)

lemma setex_all_fill:
  "distinct (map fst (cache c) @ map (\<lambda>call. fst (snd call)) calls) \<Longrightarrow>
   int (length (cache c) + length calls) \<le> max_size c \<Longrightarrow>
   setex_all MemoryCache_setex c calls =
     Inr (c\<lparr>cache := cache c @ map (\<lambda>call. (fst (snd call), snd (snd (snd call)), fst call)) calls\<rparr>)"
proof (induction calls arbitrary: c)
  case Nil
  show ?case by simp
next
  case (Cons call calls)
  obtain now key expire_time val where call: "call = (now, key, expire_time, val)"
    by (cases call) auto
  let ?c' = "c\<lparr>cache := cache c @ [(key, (val, now))]\<rparr>"
  from Cons.prems call have fresh: "key \<notin> fst ` set (cache c)" by auto
  from Cons.prems have below: "int (length (cache c)) < max_size c" by simp
  have step: "MemoryCache_setex c now key expire_time val = Inr ?c'"
    using below fresh by (rule setex_below_capacity)
  have d: "distinct (map fst (cache ?c') @ map (\<lambda>call. fst (snd call)) calls)"
    using Cons.prems(1) call by auto
  have l: "int (length (cache ?c') + length calls) \<le> max_size ?c'"
    using Cons.prems(2) by simp
  from Cons.IH [OF d l] step call show ?case by simp
qed

lemma setex_evicts:
  assumes "cache c = x # xs" and "max_size c \<le> int (length (cache c))"
  shows "MemoryCache_setex c now key expire_time val =
     Inr (c\<lparr>cache := AList.update key (val, now) (AList.delete (fst (py_min x xs)) (cache c))\<rparr>)"
  using assms by (simp add: MemoryCache_setex_def)

lemma fifo_eviction:
  assumes cap: "max_size c = int C" and pos: "1 \<le> C" and empty: "cache c = []"
    and len: "length calls = C + 1"
    and keys: "distinct (map (\<lambda>call. fst (snd call)) calls)"
    and times: "sorted (map fst calls)"
  shows "setex_all MemoryCache_setex c calls =
     Inr (c\<lparr>cache := map (\<lambda>call. (fst (snd call), snd (snd (snd call)), fst call)) (tl calls)\<rparr>)"
proof -
  let ?entry = "\<lambda>call :: real \<times> string \<times> int \<times> string. (fst (snd call), snd (snd (snd call)), fst call)"
  from len have "calls \<noteq> []" by auto
  then obtain init l where calls: "calls = init @ [l]"
    by (metis rev_exhaust)
  with len have leninit: "length init = C" by simp
  with pos obtain f rest where init: "init = f # rest"
    by (cases init) auto
  obtain now key expire_time val where l: "l = (now, key, expire_time, val)"
    by (cases l) auto
  let ?c1 = "c\<lparr>cache := map ?entry init\<rparr>"
  have fst_entry: "fst \<circ> ?entry = (\<lambda>call. fst (snd call))"
    by (auto simp: fun_eq_iff)
  have key_entry: "fst (?entry z) = fst (snd z)" for z
    by (cases z) auto
  have ts_entry: "snd (snd (?entry z)) = fst z" for z
    by (cases z) auto
  have fill: "setex_all MemoryCache_setex c init = Inr ?c1"
    using setex_all_fill [of c init] empty cap leninit keys calls by simp
  have first: "py_min (?entry f) (map ?entry rest) = ?entry f"
  proof (rule py_min_first, rule ballI)
    fix y assume "y \<in> set (map ?entry rest)"
    then obtain z where z: "z \<in> set rest" "y = ?entry z" by auto
    from times calls init z(1) have "fst f \<le> fst z" by auto
    with z(2) show "snd (snd (?entry f)) \<le> snd (snd y)" by (simp only: ts_entry)
  qed
  have dist1: "distinct (map fst (?entry f # map ?entry rest))"
    using keys calls init by (simp add: fst_entry key_entry)
  have del: "AList.delete (fst (?entry f)) (?entry f # map ?entry rest) = map ?entry rest"
    using dist1 by (rule delete_hd)
  have fresh: "key \<notin> fst ` set (map ?entry rest)"
  proof -
    have "fst ` set (map ?entry rest) = set (map (\<lambda>call. fst (snd call)) rest)"
      by (simp add: image_image)
    then show ?thesis using keys calls init l by auto
  qed
  have last: "MemoryCache_setex ?c1 now key expire_time val =
      Inr (?c1\<lparr>cache := AList.update key (val, now)
         (AList.delete (fst (py_min (?entry f) (map ?entry rest))) (cache ?c1))\<rparr>)"
    by (rule setex_evicts) (simp_all add: init leninit [symmetric] cap [symmetric] init cap leninit)
  have "setex_all MemoryCache_setex c calls = MemoryCache_setex ?c1 now key expire_time val"
    by (simp add: calls setex_all_append fill l split: sum.splits)
  also have "\<dots> = Inr (c\<lparr>cache := map ?entry rest @ [(key, (val, now))]\<rparr>)"
    unfolding last first using del update_fresh [OF fresh] by (simp add: init)
  also have "map ?entry rest @ [(key, (val, now))] = map ?entry (tl calls)"
    by (simp add: calls init l)
  finally show ?thesis .
qed


lemma length_update_present:
  "k \<in> fst ` set al \<Longrightarrow> length (AList.update k v al) = length al"
  by (induction al) auto

lemma setex_at_capacity:
  assumes nonempty: "cache c \<noteq> []" and full: "max_size c \<le> int (length (cache c))"
    and dist: "distinct (map fst (cache c))"
  shows "\<exists>old \<in> set (cache c).
      (\<forall>e \<in> set (cache c). snd (snd old) \<le> snd (snd e)) \<and>
      length (AList.delete (fst old) (cache c)) + 1 = length (cache c) \<and>
      MemoryCache_setex c now key expire_time val =
        Inr (c\<lparr>cache := AList.update key (val, now) (AList.delete (fst old) (cache c))\<rparr>)"
proof -
  from nonempty obtain x xs where c: "cache c = x # xs" by (cases "cache c") auto
  let ?old = "py_min x xs"
  have mem: "?old \<in> set (cache c)" using py_min_mem [of x xs] c by simp
  have least: "\<forall>e \<in> set (cache c). snd (snd ?old) \<le> snd (snd e)"
    using py_min_least [of _ x xs] c by simp
  from mem have "fst ?old \<in> fst ` set (cache c)" by (rule imageI)
  with dist have len: "length (AList.delete (fst ?old) (cache c)) + 1 = length (cache c)"
    by (rule length_delete_present)
  from c full have "MemoryCache_setex c now key expire_time val =
      Inr (c\<lparr>cache := AList.update key (val, now) (AList.delete (fst ?old) (cache c))\<rparr>)"
    by (rule setex_evicts)
  with mem least len show ?thesis by blast
qed

text \<open>
  Claim C3. Capacity \<open>C \<ge> 1\<close>, an empty store, \<open>C + 1\<close> calls of \<open>setex\<close> with
  distinct keys, the clock not running backwards between the calls: the run returns
  normally, the store then holds exactly \<open>C\<close> entries, and of the inserted keys exactly
  the first one is absent. And whenever \<open>setex\<close> finds a store of capacity at least 1 at
  or above its capacity, it removes exactly one entry, one whose timestamp is smallest
  among the stored ones, and then writes the new entry with the clock reading of the
  call. Both classes, \<open>MemoryCache\<close> and \<open>SimpleCache\<close>.
\<close>

theorem bounded_capacity_oldest_first:
  assumes impl: "setex = MemoryCache_setex \<or> setex = SimpleCache_setex"
  shows "(max_size c = int C \<and> 1 \<le> C \<and> cache c = [] \<and> length calls = C + 1 \<and>
          distinct (map (\<lambda>call. fst (snd call)) calls) \<and> sorted (map fst calls) \<longrightarrow>
          (\<exists>c'. setex_all setex c calls = Inr c' \<and> length (cache c') = C \<and>
             (\<forall>k \<in> set (map (\<lambda>call. fst (snd call)) calls).
                (map_of (cache c') k = None) = (k = fst (snd (hd calls)))))) \<and>
         (1 \<le> max_size d \<and> max_size d \<le> int (length (cache d)) \<and> distinct (map fst (cache d)) \<longrightarrow>
          (\<exists>old \<in> set (cache d).
             (\<forall>e \<in> set (cache d). snd (snd old) \<le> snd (snd e)) \<and>
             length (AList.delete (fst old) (cache d)) + 1 = length (cache d) \<and>
             setex d now key expire_time val =
               Inr (d\<lparr>cache := AList.update key (val, now) (AList.delete (fst old) (cache d))\<rparr>)))"
proof -
  from impl have setex: "setex = MemoryCache_setex" by (auto simp: SimpleCache_setex_eq)
  have part1: "\<exists>c'. setex_all setex c calls = Inr c' \<and> length (cache c') = C \<and>
             (\<forall>k \<in> set (map (\<lambda>call. fst (snd call)) calls).
                (map_of (cache c') k = None) = (k = fst (snd (hd calls))))"
    if h: "max_size c = int C" "1 \<le> C" "cache c = []" "length calls = C + 1"
      "distinct (map (\<lambda>call. fst (snd call)) calls)" "sorted (map fst calls)"
  proof -
    let ?entry = "\<lambda>call :: real \<times> string \<times> int \<times> string. (fst (snd call), snd (snd (snd call)), fst call)"
    let ?c' = "c\<lparr>cache := map ?entry (tl calls)\<rparr>"
    have run: "setex_all setex c calls = Inr ?c'"
      unfolding setex using h by (rule fifo_eviction)
    from h(4) obtain f rest where calls: "calls = f # rest" by (cases calls) auto
    have len: "length (cache ?c') = C" using h(4) by simp
    have "(map_of (cache ?c') k = None) = (k = fst (snd (hd calls)))"
      if "k \<in> set (map (\<lambda>call. fst (snd call)) calls)" for k
    proof -
      define K where "K = (\<lambda>call. fst (snd call)) ` set rest"
      have "(map_of (cache ?c') k = None) = (k \<notin> K)"
        by (simp add: map_of_eq_None_iff calls image_image K_def)
      also have "\<dots> = (k = fst (snd f))"
      proof -
        from h(5) calls have "fst (snd f) \<notin> K" by (simp add: K_def)
        moreover from that calls have "k = fst (snd f) \<or> k \<in> K" by (simp add: K_def)
        ultimately show ?thesis by blast
      qed
      finally show ?thesis by (simp add: calls)
    qed
    with run len show ?thesis by blast
  qed
  have part2: "\<exists>old \<in> set (cache d).
             (\<forall>e \<in> set (cache d). snd (snd old) \<le> snd (snd e)) \<and>
             length (AList.delete (fst old) (cache d)) + 1 = length (cache d) \<and>
             setex d now key expire_time val =
               Inr (d\<lparr>cache := AList.update key (val, now) (AList.delete (fst old) (cache d))\<rparr>)"
    if g: "1 \<le> max_size d" "max_size d \<le> int (length (cache d))" "distinct (map fst (cache d))"
  proof -
    from g(1,2) have "cache d \<noteq> []" by auto
    from setex_at_capacity [OF this g(2,3)] show ?thesis unfolding setex .
  qed
  from part1 part2 show ?thesis by blast
qed

theorem bounded_capacity_oldest_first_witness:
  "(SimpleCache_setex = MemoryCache_setex \<or> SimpleCache_setex = SimpleCache_setex) \<and>
   (let c = \<lparr>cache = [], max_size = 2, ttl = 3600\<rparr>;
        calls = [(1, ''A'', 60, ''a''), (2, ''B'', 60, ''b''), (3, ''C'', 60, ''c'')]
    in (max_size c = int 2 \<and> 1 \<le> (2::nat) \<and> cache c = [] \<and> length calls = 2 + 1 \<and>
        distinct (map (\<lambda>call. fst (snd call)) calls) \<and> sorted (map fst calls)) \<and>
       (\<exists>c'. setex_all SimpleCache_setex c calls = Inr c' \<and> length (cache c') = 2 \<and>
          (\<forall>k \<in> set (map (\<lambda>call. fst (snd call)) calls).
             (map_of (cache c') k = None) = (k = fst (snd (hd calls)))))) \<and>
   (let d = \<lparr>cache = [(''A'', ''a'', 5), (''B'', ''b'', 4)], max_size = 2, ttl = 3600\<rparr>
    in (1 \<le> max_size d \<and> max_size d \<le> int (length (cache d)) \<and> distinct (map fst (cache d))) \<and>
       (\<exists>old \<in> set (cache d).
          (\<forall>e \<in> set (cache d). snd (snd old) \<le> snd (snd e)) \<and>
          length (AList.delete (fst old) (cache d)) + 1 = length (cache d) \<and>
          SimpleCache_setex d 9 ''C'' 60 ''c'' =
            Inr (d\<lparr>cache := AList.update ''C'' (''c'', 9) (AList.delete (fst old) (cache d))\<rparr>)))"
proof -
  let ?c = "\<lparr>cache = [], max_size = 2, ttl = 3600\<rparr>"
  let ?calls = "[(1, ''A'', 60, ''a''), (2, ''B'', 60, ''b''), (3::real, ''C'', 60::int, ''c'')]"
  let ?d = "\<lparr>cache = [(''A'', ''a'', 5), (''B'', ''b'', 4)], max_size = 2, ttl = 3600\<rparr>"
  have impl: "SimpleCache_setex = MemoryCache_setex \<or> SimpleCache_setex = SimpleCache_setex"
    by simp
  have h1: "max_size ?c = int 2 \<and> 1 \<le> (2::nat) \<and> cache ?c = [] \<and> length ?calls = 2 + 1 \<and>
        distinct (map (\<lambda>call. fst (snd call)) ?calls) \<and> sorted (map fst ?calls)"
    by simp
  have h2: "1 \<le> max_size ?d \<and> max_size ?d \<le> int (length (cache ?d)) \<and> distinct (map fst (cache ?d))"
    by simp
  note inst = bounded_capacity_oldest_first [OF impl, of ?c 2 ?calls ?d 9 "''C''" 60 "''c''"]
  from inst h1 have c1: "\<exists>c'. setex_all SimpleCache_setex ?c ?calls = Inr c' \<and> length (cache c') = 2 \<and>
          (\<forall>k \<in> set (map (\<lambda>call. fst (snd call)) ?calls).
             (map_of (cache c') k = None) = (k = fst (snd (hd ?calls))))"
    by blast
  from inst h2 have c2: "\<exists>old \<in> set (cache ?d).
          (\<forall>e \<in> set (cache ?d). snd (snd old) \<le> snd (snd e)) \<and>
          length (AList.delete (fst old) (cache ?d)) + 1 = length (cache ?d) \<and>
          SimpleCache_setex ?d 9 ''C'' 60 ''c'' =
            Inr (?d\<lparr>cache := AList.update ''C'' (''c'', 9) (AList.delete (fst old) (cache ?d))\<rparr>)"
    by blast
  show ?thesis unfolding Let_def using impl h1 c1 h2 c2 by blast
qed

lemma get_after_setex:
  assumes "MemoryCache_setex c t key expire_time val = Inr c'"
  shows "ttl c' = ttl c \<and> map_of (cache c') key = Some (val, t)"
  using assms
  by (auto simp: MemoryCache_setex_def AList.update_conv' Let_def split: if_splits list.splits)

lemma get_present:
  "map_of (cache c) k = Some (v, ts) \<Longrightarrow>
   MemoryCache_get c now k =
     (if now - ts < real_of_int (ttl c) then (Some v, c)
      else (None, c\<lparr>cache := AList.delete k (cache c)\<rparr>))"
  by (simp add: MemoryCache_get_def)

lemma get_absent: "map_of (cache c) k = None \<Longrightarrow> MemoryCache_get c now k = (None, c)"
  by (simp add: MemoryCache_get_def)

text \<open>
  Claim C4. The \<open>expire_time\<close> argument of \<open>setex\<close> changes nothing: two calls that
  differ only in it have the same outcome. After a \<open>setex\<close> at time \<open>t\<close> that returned,
  \<open>get\<close> of that key at time \<open>now\<close> returns the stored value exactly when
  \<open>now - t\<close> is below the store's own \<open>ttl\<close>, which \<open>setex\<close> leaves as it was. For any
  stored entry, \<open>get\<close> returns its value and leaves the store alone while the entry's
  age is below \<open>ttl\<close>, and otherwise deletes the entry and returns nothing; a key that is
  not stored gives nothing. Both classes.
\<close>

theorem ttl_argument_ignored:
  assumes impl: "setex = MemoryCache_setex \<and> get = MemoryCache_get \<or>
                 setex = SimpleCache_setex \<and> get = SimpleCache_get"
  shows "setex c t key e1 val = setex c t key e2 val \<and>
         (\<forall>c'. setex c t key e1 val = Inr c' \<longrightarrow>
            ttl c' = ttl c \<and>
            (fst (get c' now key) = Some val) = (now - t < real_of_int (ttl c)) \<and>
            (fst (get c' now key) = None) = (\<not> now - t < real_of_int (ttl c))) \<and>
         (\<forall>v ts. map_of (cache c) k = Some (v, ts) \<longrightarrow>
            get c now k =
              (if now - ts < real_of_int (ttl c) then (Some v, c)
               else (None, c\<lparr>cache := AList.delete k (cache c)\<rparr>)) \<and>
            (\<not> now - ts < real_of_int (ttl c) \<longrightarrow>
               map_of (cache (snd (get c now k))) k = None)) \<and>
         (map_of (cache c) k = None \<longrightarrow> get c now k = (None, c))"
proof -
  from impl have setex: "setex = MemoryCache_setex" and get: "get = MemoryCache_get"
    by (auto simp: SimpleCache_setex_eq SimpleCache_get_eq)
  have p1: "setex c t key e1 val = setex c t key e2 val"
    by (simp add: setex MemoryCache_setex_def)
  have p2: "ttl c' = ttl c \<and>
            (fst (get c' now key) = Some val) = (now - t < real_of_int (ttl c)) \<and>
            (fst (get c' now key) = None) = (\<not> now - t < real_of_int (ttl c))"
    if "setex c t key e1 val = Inr c'" for c'
  proof -
    from that have s: "ttl c' = ttl c" "map_of (cache c') key = Some (val, t)"
      using get_after_setex [of c t key e1 val c'] by (simp_all add: setex)
    from get_present [OF s(2), of now] s(1) show ?thesis by (simp add: get)
  qed
  have p3: "get c now k =
              (if now - ts < real_of_int (ttl c) then (Some v, c)
               else (None, c\<lparr>cache := AList.delete k (cache c)\<rparr>)) \<and>
            (\<not> now - ts < real_of_int (ttl c) \<longrightarrow>
               map_of (cache (snd (get c now k))) k = None)"
    if "map_of (cache c) k = Some (v, ts)" for v ts
    using get_present [OF that, of now] by (simp add: get AList.delete_conv')
  have p4: "map_of (cache c) k = None \<longrightarrow> get c now k = (None, c)"
    by (simp add: get get_absent)
  from p1 p2 p3 p4 show ?thesis by blast
qed


theorem ttl_argument_ignored_witness:
  "(SimpleCache_setex = MemoryCache_setex \<and> SimpleCache_get = MemoryCache_get \<or>
    SimpleCache_setex = SimpleCache_setex \<and> SimpleCache_get = SimpleCache_get) \<and>
   (let c = \<lparr>cache = [(''old'', ''x'', 10)], max_size = 2, ttl = 3600\<rparr>;
        c' = \<lparr>cache = [(''old'', ''x'', 10), (''k'', ''v'', 100)], max_size = 2, ttl = 3600\<rparr>
    in SimpleCache_setex c 100 ''k'' 1 ''v'' = SimpleCache_setex c 100 ''k'' 86400 ''v'' \<and>
       SimpleCache_setex c 100 ''k'' 1 ''v'' = Inr c' \<and>
       ttl c' = ttl c \<and>
       fst (SimpleCache_get c' 200 ''k'') = Some ''v'' \<and> 200 - 100 < real_of_int (ttl c) \<and>
       map_of (cache c) ''old'' = Some (''x'', 10) \<and> \<not> 4000 - 10 < real_of_int (ttl c) \<and>
       SimpleCache_get c 4000 ''old'' = (None, c\<lparr>cache := AList.delete ''old'' (cache c)\<rparr>) \<and>
       map_of (cache (snd (SimpleCache_get c 4000 ''old''))) ''old'' = None \<and>
       map_of (cache c) ''k'' = None)"
proof -
  let ?c = "\<lparr>cache = [(''old'', ''x'', 10)], max_size = 2, ttl = 3600\<rparr>"
  let ?c' = "\<lparr>cache = [(''old'', ''x'', 10), (''k'', ''v'', 100)], max_size = 2, ttl = 3600\<rparr>"
  have impl: "SimpleCache_setex = MemoryCache_setex \<and> SimpleCache_get = MemoryCache_get \<or>
    SimpleCache_setex = SimpleCache_setex \<and> SimpleCache_get = SimpleCache_get"
    by simp
  have run: "SimpleCache_setex ?c 100 ''k'' 1 ''v'' = Inr ?c'"
    by (simp add: SimpleCache_setex_def)
  have old: "map_of (cache ?c) ''old'' = Some (''x'', 10)"
    by simp
  note inst1 = ttl_argument_ignored [OF impl, of ?c 100 "''k''" 1 "''v''" 86400 200 "''old''"]
  note inst2 = ttl_argument_ignored [OF impl, of ?c 100 "''k''" 1 "''v''" 86400 4000 "''old''"]
  from inst1 have a: "SimpleCache_setex ?c 100 ''k'' 1 ''v'' = SimpleCache_setex ?c 100 ''k'' 86400 ''v''"
    by blast
  from inst1 run have b: "ttl ?c' = ttl ?c \<and>
      (fst (SimpleCache_get ?c' 200 ''k'') = Some ''v'') = (200 - 100 < real_of_int (ttl ?c))"
    by blast
  from inst2 old have d: "SimpleCache_get ?c 4000 ''old'' =
      (if 4000 - 10 < real_of_int (ttl ?c) then (Some ''x'', ?c)
       else (None, ?c\<lparr>cache := AList.delete ''old'' (cache ?c)\<rparr>)) \<and>
      (\<not> 4000 - 10 < real_of_int (ttl ?c) \<longrightarrow>
         map_of (cache (snd (SimpleCache_get ?c 4000 ''old''))) ''old'' = None)"
    by blast
  have e: "200 - 100 < real_of_int (ttl ?c)" and f: "\<not> 4000 - 10 < real_of_int (ttl ?c)"
    by simp_all
  from b e have b': "ttl ?c' = ttl ?c \<and> fst (SimpleCache_get ?c' 200 ''k'') = Some ''v''"
    by blast
  from d f have d': "SimpleCache_get ?c 4000 ''old'' = (None, ?c\<lparr>cache := AList.delete ''old'' (cache ?c)\<rparr>) \<and>
      map_of (cache (snd (SimpleCache_get ?c 4000 ''old''))) ''old'' = None"
    by simp
  have g: "map_of (cache ?c) ''k'' = None" by simp
  show ?thesis unfolding Let_def using impl a run b' e old f d' g by blast
qed

text \<open>
  Claim C10. \<open>setex\<close> with a key that is already stored, on a store at or above its
  capacity, still removes an entry with the smallest timestamp before it rewrites the
  key. When the removed entry belongs to another key, that key is gone afterwards, the
  store holds one entry fewer than before, and a store that was exactly at capacity ends
  one below it. Both classes.
\<close>

theorem overwrite_in_full_cache_evicts:
  assumes impl: "setex = MemoryCache_setex \<or> setex = SimpleCache_setex"
    and dist: "distinct (map fst (cache c))"
    and full: "max_size c \<le> int (length (cache c))"
    and present: "key \<in> fst ` set (cache c)"
  shows "\<exists>old \<in> set (cache c).
      (\<forall>e \<in> set (cache c). snd (snd old) \<le> snd (snd e)) \<and>
      setex c now key expire_time val =
        Inr (c\<lparr>cache := AList.update key (val, now) (AList.delete (fst old) (cache c))\<rparr>) \<and>
      (fst old \<noteq> key \<longrightarrow>
         map_of (AList.update key (val, now) (AList.delete (fst old) (cache c))) (fst old) = None \<and>
         length (AList.update key (val, now) (AList.delete (fst old) (cache c))) + 1
           = length (cache c) \<and>
         (int (length (cache c)) = max_size c \<longrightarrow>
            int (length (AList.update key (val, now) (AList.delete (fst old) (cache c))))
              = max_size c - 1))"
proof -
  from impl have setex: "setex = MemoryCache_setex" by (auto simp: SimpleCache_setex_eq)
  from present have "cache c \<noteq> []" by auto
  from setex_at_capacity [OF this full dist, of now key expire_time val]
  obtain old where old: "old \<in> set (cache c)"
      "\<forall>e \<in> set (cache c). snd (snd old) \<le> snd (snd e)"
      "length (AList.delete (fst old) (cache c)) + 1 = length (cache c)"
      "MemoryCache_setex c now key expire_time val =
        Inr (c\<lparr>cache := AList.update key (val, now) (AList.delete (fst old) (cache c))\<rparr>)"
    by blast
  let ?new = "AList.update key (val, now) (AList.delete (fst old) (cache c))"
  have other: "map_of ?new (fst old) = None \<and> length ?new + 1 = length (cache c) \<and>
         (int (length (cache c)) = max_size c \<longrightarrow> int (length ?new) = max_size c - 1)"
    if ne: "fst old \<noteq> key"
  proof -
    have gone: "map_of ?new (fst old) = None"
      using ne by (simp add: AList.update_conv' AList.delete_conv')
    have "fst ` set (AList.delete (fst old) (cache c)) = set (map fst (cache c)) - {fst old}"
      using AList.delete_keys [of "fst old" "cache c"] set_removeAll [of "fst old" "map fst (cache c)"]
      by (metis set_map)
    with present ne have "key \<in> fst ` set (AList.delete (fst old) (cache c))"
      by simp
    then have "length ?new = length (AList.delete (fst old) (cache c))"
      by (rule length_update_present)
    with old(3) have len: "length ?new + 1 = length (cache c)" by simp
    then have "int (length (cache c)) = max_size c \<longrightarrow> int (length ?new) = max_size c - 1"
      by auto
    with gone len show ?thesis by blast
  qed
  show ?thesis
  proof (rule bexI [OF _ old(1)], intro conjI)
    show "\<forall>e \<in> set (cache c). snd (snd old) \<le> snd (snd e)" by (rule old(2))
    show "setex c now key expire_time val = Inr (c\<lparr>cache := ?new\<rparr>)"
      unfolding setex by (rule old(4))
    show "fst old \<noteq> key \<longrightarrow>
         map_of ?new (fst old) = None \<and> length ?new + 1 = length (cache c) \<and>
         (int (length (cache c)) = max_size c \<longrightarrow> int (length ?new) = max_size c - 1)"
      using other by (rule impI)
  qed
qed


theorem overwrite_in_full_cache_evicts_witness:
  "(let c = \<lparr>cache = [(''A'', ''a'', 1), (''B'', ''b'', 2)], max_size = 2, ttl = 3600\<rparr>;
        new = AList.update ''B'' (''b2'', 7) (AList.delete ''A'' (cache c))
    in (MemoryCache_setex = MemoryCache_setex \<or> MemoryCache_setex = SimpleCache_setex) \<and>
       distinct (map fst (cache c)) \<and> max_size c \<le> int (length (cache c)) \<and>
       ''B'' \<in> fst ` set (cache c) \<and>
       MemoryCache_setex c 7 ''B'' 60 ''b2'' = Inr (c\<lparr>cache := new\<rparr>) \<and>
       new = [(''B'', ''b2'', 7)] \<and> map_of new ''A'' = None \<and>
       length new + 1 = length (cache c) \<and> int (length new) = max_size c - 1)"
proof -
  let ?c = "\<lparr>cache = [(''A'', ''a'', 1), (''B'', ''b'', 2)], max_size = 2, ttl = 3600\<rparr>"
  have impl: "MemoryCache_setex = MemoryCache_setex \<or> MemoryCache_setex = SimpleCache_setex"
    by simp
  have dist: "distinct (map fst (cache ?c))" by simp
  have full: "max_size ?c \<le> int (length (cache ?c))" by simp
  have present: "''B'' \<in> fst ` set (cache ?c)" by simp
  from overwrite_in_full_cache_evicts [OF impl dist full present, of 7 60 "''b2''"]
  obtain old where old: "old \<in> set (cache ?c)"
      "\<forall>e \<in> set (cache ?c). snd (snd old) \<le> snd (snd e)"
      "MemoryCache_setex ?c 7 ''B'' 60 ''b2'' =
        Inr (?c\<lparr>cache := AList.update ''B'' (''b2'', 7) (AList.delete (fst old) (cache ?c))\<rparr>)"
    by blast
  from old(1,2) have "old = (''A'', ''a'', 1)" by auto
  with old(3) have run: "MemoryCache_setex ?c 7 ''B'' 60 ''b2'' =
        Inr (?c\<lparr>cache := AList.update ''B'' (''b2'', 7) (AList.delete ''A'' (cache ?c))\<rparr>)"
    by simp
  have rest: "AList.update ''B'' (''b2'', 7) (AList.delete ''A'' (cache ?c)) = [(''B'', ''b2'', 7::real)]"
    by (simp add: AList.delete_eq)
  show ?thesis unfolding Let_def using impl dist full present run rest by simp
qed

text \<open>
  Claim C9, where the code leaves it. A store built with \<open>max_size = 0\<close> is at capacity
  while empty, so the first \<open>setex\<close> takes \<open>min\<close> of an empty dict: \<open>ValueError\<close>
  reaches the caller, in \<open>MemoryCache\<close> and in \<open>SimpleCache\<close> alike.
\<close>

theorem setex_raises_at_capacity_zero:
  "MemoryCache_setex \<lparr>cache = [], max_size = 0, ttl = 3600\<rparr> 0 ''k'' 60 ''v'' = Inl ValueError \<and>
   SimpleCache_setex \<lparr>cache = [], max_size = 0, ttl = 3600\<rparr> 0 ''k'' 60 ''v'' = Inl ValueError"
  by (simp add: MemoryCache_setex_def SimpleCache_setex_def)

lemma setex_returns_with_capacity:
  "1 \<le> max_size c \<Longrightarrow> \<exists>c'. MemoryCache_setex c now key expire_time val = Inr c'"
  by (auto simp: MemoryCache_setex_def Let_def split: list.splits)

section \<open>The encodings lose nothing\<close>

lemma hex_digit_inj: "a < 16 \<Longrightarrow> b < 16 \<Longrightarrow> hex_digit a = hex_digit b \<Longrightarrow> a = b"
proof -
  assume a: "a < 16" and b: "b < 16" and eq: "hex_digit a = hex_digit b"
  have d: "distinct ''0123456789abcdef''" by simp
  have l: "length ''0123456789abcdef'' = 16" by simp
  from eq have "''0123456789abcdef'' ! a = ''0123456789abcdef'' ! b" by (simp only: hex_digit_def)
  with d a b l show "a = b" by (simp only: nth_eq_iff_index_eq)
qed



lemma hex_digit_not_special:
  "hex_digit (n mod 16) \<noteq> CHR 0x5C \<and> hex_digit (n mod 16) \<noteq> CHR 0x22"
proof -
  have "n mod 16 < length ''0123456789abcdef''" by simp
  then have "''0123456789abcdef'' ! (n mod 16) \<in> set ''0123456789abcdef''"
    by (rule nth_mem)
  then show ?thesis unfolding hex_digit_def by auto
qed



lemma of_char_lt_256: "(of_char c :: nat) < 256"
  by (cases c) simp






text \<open>UTF-8 is a prefix code as well.\<close>

lemma div64_bound: "(k::nat) < 256 \<Longrightarrow> 192 + k div 64 < 256"
proof -
  assume "k < 256"
  then have "k div 64 < 4" by (intro less_mult_imp_div_less) simp
  then show ?thesis by simp
qed

lemma byte_of_nat_inj:
  assumes "a < 256" and "b < 256" and "(of_nat a :: byte) = of_nat b"
  shows "a = b"
proof -
  from assms(3) have "unat (of_nat a :: byte) = unat (of_nat b :: byte)" by (rule arg_cong)
  with assms(1,2) show ?thesis by (simp add: unat_of_nat)
qed

lemma utf8_char_prefix:
  assumes "utf8_char c @ r = utf8_char d @ r'"
  shows "c = d"
proof -
  define n m where "n = (of_char c :: nat)" and "m = (of_char d :: nat)"
  have n: "n < 256" and m: "m < 256" unfolding n_def m_def by (rule of_char_lt_256)+
  have hn: "192 + n div 64 < 256" and hm: "192 + m div 64 < 256"
    using n m by (simp_all add: div64_bound)
  have ln: "128 + n mod 64 < 256" and lm: "128 + m mod 64 < 256" by simp_all
  have cn: "utf8_char c =
      (if n < 128 then [of_nat n] else [of_nat (192 + n div 64), of_nat (128 + n mod 64)])"
    and dm: "utf8_char d =
      (if m < 128 then [of_nat m] else [of_nat (192 + m div 64), of_nat (128 + m mod 64)])"
    by (simp_all only: utf8_char_def Let_def n_def m_def)
  have "n = m"
  proof (cases "n < 128")
    case True
    show ?thesis
    proof (cases "m < 128")
      case m1: True
      from assms have "(of_nat n :: byte) = of_nat m"
        unfolding cn dm using True m1 by (simp del: of_nat_add)
      with n m show ?thesis by (rule byte_of_nat_inj)
    next
      case m2: False
      from assms have "(of_nat n :: byte) = of_nat (192 + m div 64)"
        unfolding cn dm using True m2 by (simp del: of_nat_add)
      with n hm have "n = 192 + m div 64" by (rule byte_of_nat_inj)
      with True show ?thesis by simp
    qed
  next
    case False
    show ?thesis
    proof (cases "m < 128")
      case m1: True
      from assms have "(of_nat (192 + n div 64) :: byte) = of_nat m"
        unfolding cn dm using False m1 by (simp del: of_nat_add)
      with hn m have "192 + n div 64 = m" by (rule byte_of_nat_inj)
      with m1 show ?thesis by simp
    next
      case m2: False
      from assms
      have e1: "(of_nat (192 + n div 64) :: byte) = of_nat (192 + m div 64)"
        and e2: "(of_nat (128 + n mod 64) :: byte) = of_nat (128 + m mod 64)"
        unfolding cn dm using False m2 by (simp_all del: of_nat_add)
      from hn hm e1 have "192 + n div 64 = 192 + m div 64" by (rule byte_of_nat_inj)
      then have hi: "n div 64 = m div 64" by simp
      from ln lm e2 have "128 + n mod 64 = 128 + m mod 64" by (rule byte_of_nat_inj)
      then have lo: "n mod 64 = m mod 64" by simp
      from hi lo show ?thesis by (metis div_mult_mod_eq)
    qed
  qed
  then show ?thesis by (simp add: n_def m_def)
qed

lemma utf8_char_nonempty: "utf8_char c \<noteq> []"
  by (simp add: utf8_char_def Let_def)

lemma encode_inj: "encode s = encode s' \<Longrightarrow> s = s'"
proof (induction s arbitrary: s')
  case Nil
  then show ?case
    by (cases s') (simp_all add: encode_def utf8_char_nonempty)
next
  case (Cons c s)
  show ?case
  proof (cases s')
    case Nil
    with Cons.prems show ?thesis by (simp add: encode_def utf8_char_nonempty)
  next
    case (Cons d t)
    from Cons.prems Cons
    have eq: "utf8_char c @ encode s = utf8_char d @ encode t"
      by (simp add: encode_def)
    then have cd: "c = d" by (rule utf8_char_prefix)
    with eq have "encode s = encode t" by simp
    then have "s = t" by (rule Cons.IH)
    with cd Cons show ?thesis by simp
  qed
qed

section \<open>Properties of the cache key\<close>

lemma py_slice_last: "py_slice xs (- 10) (- 1) = butlast (drop (length xs - 10) xs)"
proof (cases "xs = []")
  case True
  then show ?thesis by (simp add: py_slice_def)
next
  case False
  then have pos: "0 < length xs" by simp
  have a: "nat (max 0 (int (length xs) - 10)) = length xs - 10" by auto
  have b: "nat (max 0 (int (length xs) - 1) - max 0 (int (length xs) - 10))
           = length xs - Suc (length xs - 10)"
    using pos by (auto simp: max_def)
  show ?thesis
    by (simp add: py_slice_def Let_def butlast_conv_take a b)
qed

lemma last_messages_eq: "last_messages ms = butlast (drop (length ms - 10) ms)"
proof (cases "1 < length ms")
  case True
  then show ?thesis by (simp add: last_messages_def py_slice_last)
next
  case False
  then have "length (butlast ms) = 0" by simp
  then have "butlast ms = []" by (simp only: length_0_conv)
  then have "butlast (drop (length ms - 10) ms) = []"
    using False by simp
  with False show ?thesis by (simp add: last_messages_def)
qed



lemma window_of_code:
  "map (\<lambda>m. (role m, content m))
     (map (\<lambda>msg. \<lparr>role = role msg, content = take 100 (content msg)\<rparr>) (last_messages ms))
   = trailing_window ms"
proof -
  have "length ms - 10 = length (butlast ms) - 9" by simp
  then have "last_messages ms = drop (length (butlast ms) - 9) (butlast ms)"
    by (simp only: last_messages_eq butlast_drop)
  then show ?thesis by (simp add: trailing_window_def)
qed

lemma dumps_messages_by_pairs:
  "dumps_messages ms =
     ''['' @ join '', ''
       (map (\<lambda>(r, c). ''{'' @ dumps_str ''content'' @ '': '' @ dumps_str c @ '', ''
                          @ dumps_str ''role'' @ '': '' @ dumps_str r @ ''}'')
          (map (\<lambda>m. (role m, content m)) ms)) @ '']''"
proof -
  have "map (\<lambda>(r, c). ''{'' @ dumps_str ''content'' @ '': '' @ dumps_str c @ '', ''
                          @ dumps_str ''role'' @ '': '' @ dumps_str r @ ''}'')
          (map (\<lambda>m. (role m, content m)) ms) = map dumps_message ms"
    by (induction ms) (simp_all add: dumps_message_def)
  then show ?thesis by (simp only: dumps_messages_def)
qed

lemma cache_context_by_window:
  "cache_context st =
     (if session_history st = [] then []
      else ''['' @ join '', ''
       (map (\<lambda>(r, c). ''{'' @ dumps_str ''content'' @ '': '' @ dumps_str c @ '', ''
                          @ dumps_str ''role'' @ '': '' @ dumps_str r @ ''}'')
          (trailing_window (session_history st))) @ '']'')"
proof (cases "messages st")
  case None
  then show ?thesis by (simp add: cache_context_def session_history_def)
next
  case (Some ms)
  then show ?thesis
    by (simp only: cache_context_def session_history_def option.case dumps_messages_by_pairs
        window_of_code)
qed

text \<open>
  Claim C1, as the code has it. Two session states whose histories are both empty (or
  absent) or both non-empty, and whose trailing windows are the same sequence of roles
  and truncated contents, give the same key for the same prompt and parameters.
\<close>

theorem cache_key_window_determined:
  assumes "(session_history st1 = []) = (session_history st2 = [])"
    and "trailing_window (session_history st1) = trailing_window (session_history st2)"
  shows "get_cache_key st1 prompt params = get_cache_key st2 prompt params"
proof -
  from assms have "cache_context st1 = cache_context st2"
    by (simp only: cache_context_by_window)
  then show ?thesis by (simp only: get_cache_key_def key_content_def)
qed

theorem cache_key_window_determined_witness:
  "(let m = \<lparr>role = ''assistant'', content = replicate 100 (CHR ''a'') @ ''x''\<rparr>;
        m' = \<lparr>role = ''assistant'', content = replicate 100 (CHR ''a'') @ ''y''\<rparr>;
        st1 = empty_session\<lparr>messages := Some [m, \<lparr>role = ''user'', content = ''one''\<rparr>]\<rparr>;
        st2 = empty_session\<lparr>messages := Some [m', \<lparr>role = ''user'', content = ''two''\<rparr>]\<rparr>
    in st1 \<noteq> st2 \<and>
       (session_history st1 = []) = (session_history st2 = []) \<and>
       trailing_window (session_history st1) = trailing_window (session_history st2) \<and>
       get_cache_key st1 ''Hello'' [(''top_p'', PFloat ''0.9'')]
         = get_cache_key st2 ''Hello'' [(''top_p'', PFloat ''0.9'')])"
proof -
  let ?m = "\<lparr>role = ''assistant'', content = replicate 100 (CHR ''a'') @ ''x''\<rparr>"
  let ?m' = "\<lparr>role = ''assistant'', content = replicate 100 (CHR ''a'') @ ''y''\<rparr>"
  let ?st1 = "empty_session\<lparr>messages := Some [?m, \<lparr>role = ''user'', content = ''one''\<rparr>]\<rparr>"
  let ?st2 = "empty_session\<lparr>messages := Some [?m', \<lparr>role = ''user'', content = ''two''\<rparr>]\<rparr>"
  have ne: "?st1 \<noteq> ?st2" by (simp add: empty_session_def)
  have h1: "(session_history ?st1 = []) = (session_history ?st2 = [])"
    by (simp add: session_history_def)
  have h2: "trailing_window (session_history ?st1) = trailing_window (session_history ?st2)"
    by (simp add: session_history_def trailing_window_def)
  from cache_key_window_determined [OF h1 h2]
  have "get_cache_key ?st1 ''Hello'' [(''top_p'', PFloat ''0.9'')]
         = get_cache_key ?st2 ''Hello'' [(''top_p'', PFloat ''0.9'')]" .
  with ne h1 h2 show ?thesis unfolding Let_def by (intro conjI)
qed

lemma key_no_history:
  "get_cache_key empty_session ''Hi'' [] = ''hf_cache:2253a7175836312b8188486619ce73b2''"
  by code_simp

lemma key_one_message:
  "get_cache_key (empty_session\<lparr>messages := Some [\<lparr>role = ''user'', content = ''Hi''\<rparr>]\<rparr>) ''Hi'' []
     = ''hf_cache:17cbb80edce4c6be8ad2b9bd81e5c501''"
  by code_simp

theorem cache_key_window_counterexample:
  "trailing_window (session_history empty_session)
     = trailing_window
         (session_history (empty_session\<lparr>messages := Some [\<lparr>role = ''user'', content = ''Hi''\<rparr>]\<rparr>)) \<and>
   get_cache_key empty_session ''Hi'' []
     \<noteq> get_cache_key (empty_session\<lparr>messages := Some [\<lparr>role = ''user'', content = ''Hi''\<rparr>]\<rparr>) ''Hi'' []"
proof -
  have "trailing_window (session_history empty_session)
     = trailing_window
         (session_history (empty_session\<lparr>messages := Some [\<lparr>role = ''user'', content = ''Hi''\<rparr>]\<rparr>))"
    by (simp add: trailing_window_def session_history_def empty_session_def)
  moreover have "get_cache_key empty_session ''Hi'' []
     \<noteq> get_cache_key (empty_session\<lparr>messages := Some [\<lparr>role = ''user'', content = ''Hi''\<rparr>]\<rparr>) ''Hi'' []"
    unfolding key_no_history key_one_message by simp
  ultimately show ?thesis by (rule conjI)
qed










lemma last_messages_window:
  assumes "length w \<le> 9"
  shows "last_messages (older @ w @ [cur]) = drop (length older + length w - 9) older @ w"
proof -
  let ?k = "length (older @ w @ [cur]) - 10"
  have k: "?k = length older + length w - 9" by simp
  from assms have le: "?k \<le> length older" by simp
  then have "drop ?k (older @ w @ [cur]) = drop ?k older @ (w @ [cur])" by simp
  then have "butlast (drop ?k (older @ w @ [cur])) = drop ?k older @ w"
    by (simp add: butlast_append)
  then show ?thesis by (simp only: last_messages_eq k)
qed














lemma hexdigest_inj: "hexdigest bs = hexdigest bs' \<Longrightarrow> bs = bs'"
proof (induction bs arbitrary: bs')
  case Nil
  then show ?case by (cases bs') (simp_all add: hexdigest_def)
next
  case (Cons b bs)
  show ?case
  proof (cases bs')
    case Nil
    with Cons.prems show ?thesis by (simp add: hexdigest_def)
  next
    case (Cons b' t)
    from Cons.prems Cons
    have d: "hex_digit (unat b div 16) = hex_digit (unat b' div 16)"
        "hex_digit (unat b mod 16) = hex_digit (unat b' mod 16)"
      and rest: "hexdigest bs = hexdigest t"
      by (simp_all add: hexdigest_def)
    have lt: "unat x div 16 < 16" for x :: byte
    proof -
      have "unat x < 2 ^ LENGTH(8)" by (rule unsigned_less)
      then have "unat x < 16 * 16" by simp
      then show ?thesis by (intro less_mult_imp_div_less)
    qed
    have hi: "unat b div 16 = unat b' div 16" by (rule hex_digit_inj [OF lt lt d(1)])
    have lo: "unat b mod 16 = unat b' mod 16" by (rule hex_digit_inj [OF _ _ d(2)]) simp_all
    from hi lo have "unat b = unat b'" by (metis div_mult_mod_eq)
    then have "b = b'" by (simp add: word_unat_eq_iff)
    moreover from rest have "bs = t" by (rule Cons.IH)
    ultimately show ?thesis using Cons by simp
  qed
qed

lemma cache_key_eq_iff:
  "(get_cache_key st1 p1 ps1 = get_cache_key st2 p2 ps2) =
   (md5_digest (encode (key_content st1 p1 ps1)) = md5_digest (encode (key_content st2 p2 ps2)))"
  by (auto simp: get_cache_key_def dest: hexdigest_inj)








lemma sorted_get_params:
  "sort_items (get_params st) =
     [(''do_sample'', PBool True),
      (''max_new_tokens'', case max_tokens st of None \<Rightarrow> PInt 1024 | Some v \<Rightarrow> v),
      (''repetition_penalty'', case rep_penalty st of None \<Rightarrow> PFloat ''1.1'' | Some v \<Rightarrow> v),
      (''return_full_text'', PBool False),
      (''temperature'', case temperature st of None \<Rightarrow> PFloat ''0.7'' | Some v \<Rightarrow> v),
      (''top_p'', case top_p st of None \<Rightarrow> PFloat ''0.9'' | Some v \<Rightarrow> v)]"
  by (simp add: get_params_def sort_items_def)

lemma sorted_generate_stream_params:
  "sort_items (generate_stream_params st) =
     [(''do_sample'', PBool True),
      (''max_new_tokens'', case max_tokens st of None \<Rightarrow> PInt 1024 | Some v \<Rightarrow> v),
      (''repetition_penalty'', case rep_penalty st of None \<Rightarrow> PFloat ''1.1'' | Some v \<Rightarrow> v),
      (''return_full_text'', PBool False),
      (''stream'', PBool True),
      (''temperature'', case temperature st of None \<Rightarrow> PFloat ''0.7'' | Some v \<Rightarrow> v),
      (''top_p'', case top_p st of None \<Rightarrow> PFloat ''0.9'' | Some v \<Rightarrow> v)]"
  by (simp add: generate_stream_params_def get_params_def sort_items_def)

lemma stream_params_longer:
  "length (dumps_params (generate_stream_params st)) = length (dumps_params (get_params st)) + 16"
  by (simp add: dumps_params_def sorted_get_params sorted_generate_stream_params dumps_str_def
      json_escape_char_def)

text \<open>
  Claim C8, as the code has it. \<open>generate\<close> and \<open>generate_stream\<close> derive their keys
  with the same function, but not from the same parameter set: the streaming path has
  added \<open>stream: true\<close> before it derives the key. The two digested texts always
  differ, and the two keys are equal exactly when the two MD5 digests are.
\<close>

theorem stream_key_differs_from_generate_key:
  "generate_cache_key st prompt = get_cache_key st prompt (get_params st) \<and>
   generate_stream_cache_key st prompt
     = get_cache_key st prompt (AList.update ''stream'' (PBool True) (get_params st)) \<and>
   encode (key_content st prompt (AList.update ''stream'' (PBool True) (get_params st)))
     \<noteq> encode (key_content st prompt (get_params st)) \<and>
   (generate_stream_cache_key st prompt = generate_cache_key st prompt) =
   (md5_digest (encode (key_content st prompt (AList.update ''stream'' (PBool True) (get_params st))))
      = md5_digest (encode (key_content st prompt (get_params st))))"
proof -
  have "length (key_content st prompt (generate_stream_params st))
      \<noteq> length (key_content st prompt (get_params st))"
    by (simp add: key_content_def stream_params_longer)
  then have "key_content st prompt (generate_stream_params st) \<noteq> key_content st prompt (get_params st)"
    by metis
  then have "encode (key_content st prompt (generate_stream_params st))
      \<noteq> encode (key_content st prompt (get_params st))"
    by (auto dest: encode_inj)
  then show ?thesis
    by (simp add: generate_cache_key_def generate_stream_cache_key_def generate_stream_params_def
        cache_key_eq_iff)
qed

lemma generate_key_hello:
  "generate_cache_key empty_session ''Hello'' = ''hf_cache:f35ed5662031c6e03cb6e54f1cb8d159''"
  by code_simp

lemma generate_stream_key_hello:
  "generate_stream_cache_key empty_session ''Hello'' = ''hf_cache:821c5beea97c613a5059873950b9714b''"
  by code_simp

section \<open>Properties of the streaming generator\<close>

lemma concat_chars: "concat (map (\<lambda>char. [char]) s) = s"
  by (induction s) simp_all

lemma process_chunk_appends:
  "process_chunk loaded (full_response, n) = Inr (yielded, full', n') \<Longrightarrow>
   full' = full_response @ concat yielded"
  by (auto simp: process_chunk_def Let_def concat_chars
      split: json.splits list.splits option.splits)

lemma process_line_appends:
  "process_line loads line (full_response, n) = Inr (yielded, full', n') \<Longrightarrow>
   full' = full_response @ concat yielded"
  by (auto simp: process_line_def Let_def dest: process_chunk_appends
      split: if_splits sum.splits loads_error.splits)

lemma stream_loop_appends:
  "stream_loop loads lines (full_response, n) = (yielded, (full', n'), exc) \<Longrightarrow>
   full' = full_response @ concat yielded"
proof (induction lines arbitrary: full_response n yielded full' n' exc)
  case Nil
  then show ?case by simp
next
  case (Cons line lines)
  show ?case
  proof (cases "process_line loads line (full_response, n)")
    case (Inl e)
    with Cons.prems show ?thesis by simp
  next
    case (Inr r)
    obtain ys f1 n1 where r: "r = (ys, f1, n1)" by (cases r) auto
    obtain zs f2 n2 e2 where rest: "stream_loop loads lines (f1, n1) = (zs, (f2, n2), e2)"
      by (cases "stream_loop loads lines (f1, n1)") auto
    from Inr r have f1: "f1 = full_response @ concat ys" by (auto dest: process_line_appends)
    from rest have f2: "f2 = f1 @ concat zs" by (rule Cons.IH)
    from Cons.prems Inr r rest have "yielded = ys @ zs" "full' = f2" by simp_all
    with f1 f2 show ?thesis by simp
  qed
qed

lemma stream_loop_text:
  "fst (fst (snd (stream_loop loads lines ([], 0)))) = concat (fst (stream_loop loads lines ([], 0)))"
proof -
  obtain ys f n e where r: "stream_loop loads lines ([], 0) = (ys, (f, n), e)"
    by (cases "stream_loop loads lines ([], 0)") auto
  then have "f = [] @ concat ys" by (rule stream_loop_appends)
  with r show ?thesis by simp
qed

lemma get_from_cache_keeps:
  "redis_client (snd (get_from_cache api t key)) = redis_client api \<and>
   max_size (simple_cache (snd (get_from_cache api t key))) = max_size (simple_cache api) \<and>
   ttl (simple_cache (snd (get_from_cache api t key))) = ttl (simple_cache api)"
  by (auto simp: get_from_cache_def SimpleCache_get_def split: option.splits sum.splits prod.splits if_splits)

lemma lookup_after_save_memory:
  assumes "redis_client api = None" and "1 \<le> max_size (simple_cache api)"
    and "t' - t < real_of_int (ttl (simple_cache api))"
  shows "fst (get_from_cache (save_to_cache api t key text expire_time) t' key) = Some text"
proof -
  from assms(2) obtain c' where s: "MemoryCache_setex (simple_cache api) t key expire_time text = Inr c'"
    using setex_returns_with_capacity by blast
  then have c': "ttl c' = ttl (simple_cache api)" "map_of (cache c') key = Some (text, t)"
    using get_after_setex by blast+
  from assms(1) s have "save_to_cache api t key text expire_time = api\<lparr>simple_cache := c'\<rparr>"
    by (simp add: save_to_cache_def SimpleCache_setex_eq)
  then show ?thesis
    using assms(1,3) c' get_present [OF c'(2), of t']
    by (simp add: get_from_cache_def SimpleCache_get_eq)
qed

lemma lookup_after_save_redis:
  assumes "redis_client api = Some r" and "reachable r"
  shows "fst (get_from_cache (save_to_cache api t key text expire_time) t' key) = Some text"
  using assms
  by (simp add: save_to_cache_def get_from_cache_def redis_setex_def redis_get_def
      AList.update_conv')

lemma generate_stream_hit:
  assumes "get_from_cache api t_lookup (generate_stream_cache_key st prompt) = (Some v, api1)"
    and "v \<noteq> []"
  shows "generate_stream api st loads response t_lookup t_save prompt =
     \<lparr>fragments = map (\<lambda>char. [char]) v, raised = None, api_after = api1,
      session_after = add_tokens st (int (split_len (format_prompt st prompt))) (int (split_len v))\<rparr>"
  using assms by (simp add: generate_stream_def Let_def)

lemma generate_stream_miss:
  assumes "get_from_cache api t_lookup (generate_stream_cache_key st prompt) = (cached, api1)"
    and "cached = None \<or> cached = Some []"
  shows "generate_stream api st loads response t_lookup t_save prompt =
     (case response of
        PostRaises msg \<Rightarrow>
          \<lparr>fragments = [''Error: '' @ msg], raised = None, api_after = api1, session_after = st\<rparr>
      | Streams lines broken \<Rightarrow>
          (case stream_loop loads lines ([], 0) of
             (yielded, (full_response, tokens_received), exc) \<Rightarrow>
               (case exc of
                  Some (RequestException msg) \<Rightarrow>
                    \<lparr>fragments = yielded @ [''Error: '' @ msg], raised = None,
                     api_after = api1, session_after = st\<rparr>
                | Some e \<Rightarrow>
                    \<lparr>fragments = yielded, raised = Some e, api_after = api1, session_after = st\<rparr>
                | None \<Rightarrow>
                    (case broken of
                       Some msg \<Rightarrow>
                         \<lparr>fragments = yielded @ [''Error: '' @ msg], raised = None,
                          api_after = api1, session_after = st\<rparr>
                     | None \<Rightarrow>
                         if full_response \<noteq> [] then
                           \<lparr>fragments = yielded, raised = None,
                            api_after = save_to_cache api1 t_save
                                          (generate_stream_cache_key st prompt) full_response CACHE_TTL,
                            session_after = add_tokens st (int (split_len (format_prompt st prompt)))
                                              tokens_received\<rparr>
                         else
                           \<lparr>fragments = yielded, raised = None,
                            api_after = api1, session_after = st\<rparr>))))"
  using assms by (auto simp: generate_stream_def Let_def)



lemma generate_stream_completes:
  assumes "get_from_cache api t_lookup (generate_stream_cache_key st prompt) = (cached, api1)"
    and "cached = None \<or> cached = Some []"
    and "stream_loop loads lines ([], 0) = (yielded, (full_response, tokens_received), None)"
  shows "generate_stream api st loads (Streams lines None) t_lookup t_save prompt =
      (if full_response \<noteq> [] then
         \<lparr>fragments = yielded, raised = None,
          api_after = save_to_cache api1 t_save
                        (generate_stream_cache_key st prompt) full_response CACHE_TTL,
          session_after = add_tokens st (int (split_len (format_prompt st prompt)))
                            tokens_received\<rparr>
       else \<lparr>fragments = yielded, raised = None, api_after = api1, session_after = st\<rparr>)"
  by (simp add: generate_stream_miss [OF assms(1,2)] assms(3))

lemma generate_stream_loop_raises:
  assumes "get_from_cache api t_lookup (generate_stream_cache_key st prompt) = (cached, api1)"
    and "cached = None \<or> cached = Some []"
    and "stream_loop loads lines ([], 0) = (yielded, acc, Some e)"
  shows "api_after (generate_stream api st loads (Streams lines broken) t_lookup t_save prompt) = api1 \<and>
         session_after (generate_stream api st loads (Streams lines broken) t_lookup t_save prompt) = st \<and>
         ((\<forall>msg. e \<noteq> RequestException msg) \<longrightarrow>
            fragments (generate_stream api st loads (Streams lines broken) t_lookup t_save prompt) = yielded \<and>
            raised (generate_stream api st loads (Streams lines broken) t_lookup t_save prompt) = Some e)"
proof -
  obtain f n where acc: "acc = (f, n)" by (cases acc)
  show ?thesis
    by (cases e) (simp_all add: generate_stream_miss [OF assms(1,2)] assms(3) acc)
qed


lemma example_payloads:
  "take 6 line_hi \<noteq> encode ''data: ''" "line_hi \<noteq> []" "line_hi \<noteq> encode ''data: [DONE]''"
  "loads_example line_hi = Inr (JDict [(''generated_text'', JStr ''Hi'')])"
  "take 6 line_there = encode ''data: ''" "line_there \<noteq> []" "line_there \<noteq> encode ''data: [DONE]''"
  "loads_example (drop 6 line_there) = Inr (JDict [(''generated_text'', JStr '' there'')])"
  "take 6 line_not_json \<noteq> encode ''data: ''" "line_not_json \<noteq> []"
  "line_not_json \<noteq> encode ''data: [DONE]''"
  "loads_example line_not_json = Inl JSONDecodeError"
  "take 6 line_not_utf8 \<noteq> encode ''data: ''" "line_not_utf8 \<noteq> []"
  "line_not_utf8 \<noteq> encode ''data: [DONE]''"
  "loads_example line_not_utf8 = Inl (LoadsRaised UnicodeDecodeError)"
  by (simp_all add: line_hi_def line_there_def line_not_json_def line_not_utf8_def
      loads_example_def encode_def utf8_char_def)

lemma example_lines:
  "process_line loads_example line_hi (full, n) = Inr ([''H'', ''i''], full @ ''Hi'', n + 1)"
  "process_line loads_example line_there (full, n)
     = Inr (['' '', ''t'', ''h'', ''e'', ''r'', ''e''], full @ '' there'', n + 1)"
  "process_line loads_example line_not_json (full, n) = Inr ([], full, n)"
  "process_line loads_example line_not_utf8 (full, n) = Inl UnicodeDecodeError"
  "process_line loads_example [] (full, n) = Inr ([], full, n)"
  "process_line loads_example (encode ''data: [DONE]'') (full, n) = Inr ([], full, n)"
  by (simp_all add: process_line_def process_chunk_def example_payloads Let_def
      split_len_def py_isspace_def)

lemma example_stream:
  "stream_loop loads_example
     [line_hi, [], line_not_json, encode ''data: [DONE]'', line_there] ([], 0)
   = ([''H'', ''i'', '' '', ''t'', ''h'', ''e'', ''r'', ''e''], (''Hi there'', 2), None)"
  by (simp add: example_lines)

lemma example_stream_not_utf8:
  "stream_loop loads_example [line_hi, line_not_utf8, line_there] ([], 0)
   = ([''H'', ''i''], (''Hi'', 1), Some UnicodeDecodeError)"
  by (simp add: example_lines)

lemma fresh_api_lookup: "get_from_cache fresh_api t key = (None, fresh_api)"
  by (simp add: get_from_cache_def fresh_api_def SimpleCache_get_def)

text \<open>
  Claim C2. On a cache hit (the lookup returns a non-empty text \<open>v\<close>) the fragments
  yielded concatenate to \<open>v\<close>. On a miss, when the response delivers its lines, ends
  without a failure and no exception leaves the loop, the run raises nothing, and if the
  concatenation of the yielded fragments is not empty it is exactly the text passed to
  \<open>save_to_cache\<close> under the derived key; a later lookup of that key then returns it,
  on the in-memory backend (capacity at least 1, within its \<open>ttl\<close>) and on a reachable
  Redis alike.
\<close>

theorem stream_fragments_reconstruct_cached_text:
  assumes lookup: "get_from_cache api t_lookup (generate_stream_cache_key st prompt) = (cached, api1)"
  shows "(\<forall>v. cached = Some v \<and> v \<noteq> [] \<longrightarrow>
            concat (fragments (generate_stream api st loads response t_lookup t_save prompt)) = v \<and>
            raised (generate_stream api st loads response t_lookup t_save prompt) = None) \<and>
         ((cached = None \<or> cached = Some []) \<and> response = Streams lines None \<and>
          snd (snd (stream_loop loads lines ([], 0))) = None \<longrightarrow>
            (let r = generate_stream api st loads response t_lookup t_save prompt;
                 written = concat (fragments r);
                 cache_key = generate_stream_cache_key st prompt
             in raised r = None \<and>
                api_after r =
                  (if written = [] then api1
                   else save_to_cache api1 t_save cache_key written CACHE_TTL) \<and>
                (written \<noteq> [] \<and> redis_client api = None \<and> 1 \<le> max_size (simple_cache api) \<and>
                 t' - t_save < real_of_int (ttl (simple_cache api)) \<longrightarrow>
                   fst (get_from_cache (api_after r) t' cache_key) = Some written) \<and>
                (written \<noteq> [] \<and> (\<exists>rd. redis_client api = Some rd \<and> reachable rd) \<longrightarrow>
                   fst (get_from_cache (api_after r) t' cache_key) = Some written)))"
proof (intro conjI allI impI)
  fix v
  assume "cached = Some v \<and> v \<noteq> []"
  with lookup
  have "generate_stream api st loads response t_lookup t_save prompt =
     \<lparr>fragments = map (\<lambda>char. [char]) v, raised = None, api_after = api1,
      session_after = add_tokens st (int (split_len (format_prompt st prompt))) (int (split_len v))\<rparr>"
    by (intro generate_stream_hit) simp_all
  then show "concat (fragments (generate_stream api st loads response t_lookup t_save prompt)) = v"
    and "raised (generate_stream api st loads response t_lookup t_save prompt) = None"
    by (simp_all add: concat_chars)
next
  let ?key = "generate_stream_cache_key st prompt"
  assume h: "(cached = None \<or> cached = Some []) \<and> response = Streams lines None \<and>
          snd (snd (stream_loop loads lines ([], 0))) = None"
  obtain yielded full_response tokens_received
    where loop: "stream_loop loads lines ([], 0) = (yielded, (full_response, tokens_received), None)"
    using h by (cases "stream_loop loads lines ([], 0)") auto
  have full: "full_response = concat yielded"
    using stream_loop_appends [OF loop] by simp
  from h have miss: "cached = None \<or> cached = Some []" and resp: "response = Streams lines None"
    by simp_all
  note run = generate_stream_completes [OF lookup miss loop, of t_save]
  let ?r = "generate_stream api st loads response t_lookup t_save prompt"
  have frag: "fragments ?r = yielded" and nothing: "raised ?r = None"
    unfolding resp run by simp_all
  define written where "written = concat (fragments ?r)"
  have after: "api_after ?r =
      (if written = [] then api1 else save_to_cache api1 t_save ?key written CACHE_TTL)"
    unfolding written_def frag unfolding resp run full by simp
  from lookup have api1: "api1 = snd (get_from_cache api t_lookup ?key)" by simp
  have keeps: "redis_client api1 = redis_client api"
      "max_size (simple_cache api1) = max_size (simple_cache api)"
      "ttl (simple_cache api1) = ttl (simple_cache api)"
    unfolding api1 using get_from_cache_keeps [of api t_lookup ?key] by simp_all
  have mem: "fst (get_from_cache (api_after ?r) t' ?key) = Some written"
    if "written \<noteq> [] \<and> redis_client api = None \<and> 1 \<le> max_size (simple_cache api) \<and>
        t' - t_save < real_of_int (ttl (simple_cache api))"
  proof -
    from that after
    have "api_after ?r = save_to_cache api1 t_save ?key written CACHE_TTL"
      by simp
    moreover have "fst (get_from_cache
        (save_to_cache api1 t_save ?key written CACHE_TTL) t' ?key) = Some written"
      using that by (intro lookup_after_save_memory) (simp_all add: keeps)
    ultimately show ?thesis by simp
  qed
  have red: "fst (get_from_cache (api_after ?r) t' ?key) = Some written"
    if "written \<noteq> [] \<and> (\<exists>rd. redis_client api = Some rd \<and> reachable rd)"
  proof -
    from that obtain rd where rd: "redis_client api1 = Some rd" "reachable rd"
      by (auto simp: keeps)
    from that after
    have "api_after ?r = save_to_cache api1 t_save ?key written CACHE_TTL"
      by simp
    moreover have "fst (get_from_cache
        (save_to_cache api1 t_save ?key written CACHE_TTL) t' ?key) = Some written"
      using rd by (rule lookup_after_save_redis)
    ultimately show ?thesis by simp
  qed
  show "let r = generate_stream api st loads response t_lookup t_save prompt;
            written = concat (fragments r);
            cache_key = generate_stream_cache_key st prompt
        in raised r = None \<and>
           api_after r =
             (if written = [] then api1
              else save_to_cache api1 t_save cache_key written CACHE_TTL) \<and>
           (written \<noteq> [] \<and> redis_client api = None \<and> 1 \<le> max_size (simple_cache api) \<and>
            t' - t_save < real_of_int (ttl (simple_cache api)) \<longrightarrow>
              fst (get_from_cache (api_after r) t' cache_key) = Some written) \<and>
           (written \<noteq> [] \<and> (\<exists>rd. redis_client api = Some rd \<and> reachable rd) \<longrightarrow>
              fst (get_from_cache (api_after r) t' cache_key) = Some written)"
    unfolding Let_def written_def [symmetric]
  proof (intro conjI impI)
    show "raised ?r = None" by (fact nothing)
    show "api_after ?r =
      (if written = [] then api1 else save_to_cache api1 t_save ?key written CACHE_TTL)"
      by (fact after)
    show "fst (get_from_cache (api_after ?r) t' ?key) = Some written"
      if "written \<noteq> [] \<and> redis_client api = None \<and> 1 \<le> max_size (simple_cache api) \<and>
          t' - t_save < real_of_int (ttl (simple_cache api))"
      using that by (rule mem)
    show "fst (get_from_cache (api_after ?r) t' ?key) = Some written"
      if "written \<noteq> [] \<and> (\<exists>rd. redis_client api = Some rd \<and> reachable rd)"
      using that by (rule red)
  qed
qed


theorem stream_fragments_reconstruct_cached_text_witness:
  "(let cache_key = generate_stream_cache_key empty_session ''Hello'';
        lines = [line_hi, [], line_not_json, encode ''data: [DONE]'', line_there];
        r = generate_stream fresh_api empty_session loads_example (Streams lines None) 0 1 ''Hello'';
        warm = fresh_api\<lparr>simple_cache :=
                 \<lparr>cache = [(cache_key, ''Hi there'', 1)], max_size = 1000, ttl = 3600\<rparr>\<rparr>;
        r' = generate_stream warm empty_session loads_example (PostRaises ''unused'') 2 3 ''Hello''
    in get_from_cache fresh_api 0 cache_key = (None, fresh_api) \<and>
       snd (snd (stream_loop loads_example lines ([], 0))) = None \<and>
       concat (fragments r) = ''Hi there'' \<and>
       redis_client fresh_api = None \<and> 1 \<le> max_size (simple_cache fresh_api) \<and>
       2 - 1 < real_of_int (ttl (simple_cache fresh_api)) \<and>
       raised r = None \<and>
       api_after r = save_to_cache fresh_api 1 cache_key ''Hi there'' CACHE_TTL \<and>
       fst (get_from_cache (api_after r) 2 cache_key) = Some ''Hi there'' \<and>
       get_from_cache warm 2 cache_key = (Some ''Hi there'', warm) \<and>
       concat (fragments r') = ''Hi there'' \<and> raised r' = None)"
proof -
  define cache_key where "cache_key = generate_stream_cache_key empty_session ''Hello''"
  define lines where "lines = [line_hi, [], line_not_json, encode ''data: [DONE]'', line_there]"
  define r where
    "r = generate_stream fresh_api empty_session loads_example (Streams lines None) 0 1 ''Hello''"
  define warm where "warm = fresh_api\<lparr>simple_cache :=
                 \<lparr>cache = [(cache_key, ''Hi there'', 1)], max_size = 1000, ttl = 3600\<rparr>\<rparr>"
  define r' where
    "r' = generate_stream warm empty_session loads_example (PostRaises ''unused'') 2 3 ''Hello''"
  have lookup: "get_from_cache fresh_api 0 (generate_stream_cache_key empty_session ''Hello'')
      = (None, fresh_api)"
    by (rule fresh_api_lookup)
  have loop: "stream_loop loads_example lines ([], 0)
      = ([''H'', ''i'', '' '', ''t'', ''h'', ''e'', ''r'', ''e''], (''Hi there'', 2), None)"
    unfolding lines_def by (rule example_stream)
  then have ended: "snd (snd (stream_loop loads_example lines ([], 0))) = None" by simp
  have frags: "concat (fragments r) = ''Hi there''"
    unfolding r_def by (simp add: generate_stream_completes [OF lookup _ loop])
  have backend: "redis_client fresh_api = None" "1 \<le> max_size (simple_cache fresh_api)"
      "2 - 1 < real_of_int (ttl (simple_cache fresh_api))"
    by (simp_all add: fresh_api_def)
  have warm_lookup: "get_from_cache warm 2 (generate_stream_cache_key empty_session ''Hello'')
      = (Some ''Hi there'', warm)"
    by (simp add: warm_def cache_key_def fresh_api_def get_from_cache_def SimpleCache_get_def)
  note miss = stream_fragments_reconstruct_cached_text
      [OF lookup, where loads = loads_example and response = "Streams lines None" and t_save = 1
        and lines = lines and t' = 2, folded r_def cache_key_def]
  note hit = stream_fragments_reconstruct_cached_text
      [OF warm_lookup, where loads = loads_example and response = "PostRaises ''unused''"
        and t_save = 3, folded r'_def]
  have prem: "(None = None \<or> None = Some []) \<and> Streams lines None = Streams lines None \<and>
      snd (snd (stream_loop loads_example lines ([], 0))) = None"
    using ended by simp
  note c = mp [OF miss [unfolded Let_def frags, THEN conjunct2] prem]
  have m: "raised r = None"
      "api_after r = save_to_cache fresh_api 1 cache_key ''Hi there'' CACHE_TTL"
      "fst (get_from_cache (api_after r) 2 cache_key) = Some ''Hi there''"
  proof -
    show "raised r = None" by (rule c [THEN conjunct1])
    show "api_after r = save_to_cache fresh_api 1 cache_key ''Hi there'' CACHE_TTL"
      using c [THEN conjunct2, THEN conjunct1] by simp
    show "fst (get_from_cache (api_after r) 2 cache_key) = Some ''Hi there''"
      by (rule mp [OF c [THEN conjunct2, THEN conjunct2, THEN conjunct1]]) (simp add: fresh_api_def)
  qed
  from hit have h: "concat (fragments r') = ''Hi there''" "raised r' = None"
    by simp_all
  show ?thesis
    unfolding Let_def
    unfolding cache_key_def [symmetric] lines_def [symmetric]
    unfolding r_def [symmetric] warm_def [symmetric]
    unfolding r'_def [symmetric]
    using lookup [folded cache_key_def] ended frags backend m warm_lookup [folded cache_key_def] h
    by (intro conjI)
qed





text \<open>
  Claim C6, where the code leaves it. A line that is not UTF-8 makes \<open>json.loads\<close> raise
  \<open>UnicodeDecodeError\<close>, which is neither \<open>JSONDecodeError\<close> nor one of the three caught
  exceptions: with such a line between two valid \<open>generated_text\<close> chunks the run yields
  the first chunk's text, then the exception reaches the consumer; the second chunk's
  text is never yielded and nothing is cached. Without that line both chunks come
  through.
\<close>

theorem undecodable_line_ends_stream:
  "fragments (generate_stream fresh_api empty_session loads_example
      (Streams [line_hi, line_not_utf8, line_there] None) 0 1 ''Hello'') = [''H'', ''i''] \<and>
   raised (generate_stream fresh_api empty_session loads_example
      (Streams [line_hi, line_not_utf8, line_there] None) 0 1 ''Hello'') = Some UnicodeDecodeError \<and>
   api_after (generate_stream fresh_api empty_session loads_example
      (Streams [line_hi, line_not_utf8, line_there] None) 0 1 ''Hello'') = fresh_api \<and>
   fragments (generate_stream fresh_api empty_session loads_example
      (Streams [line_hi, line_there] None) 0 1 ''Hello'')
     = [''H'', ''i'', '' '', ''t'', ''h'', ''e'', ''r'', ''e'']"
proof -
  have lookup: "get_from_cache fresh_api 0 (generate_stream_cache_key empty_session ''Hello'')
      = (None, fresh_api)"
    by (rule fresh_api_lookup)
  have miss: "None = (None :: string option) \<or> None = Some []" by simp
  have good: "stream_loop loads_example [line_hi, line_there] ([], 0)
      = ([''H'', ''i'', '' '', ''t'', ''h'', ''e'', ''r'', ''e''], (''Hi there'', 2), None)"
    by (simp add: example_lines)
  from generate_stream_loop_raises [OF lookup miss example_stream_not_utf8, of None 1]
  have bad: "fragments (generate_stream fresh_api empty_session loads_example
      (Streams [line_hi, line_not_utf8, line_there] None) 0 1 ''Hello'') = [''H'', ''i'']"
    "raised (generate_stream fresh_api empty_session loads_example
      (Streams [line_hi, line_not_utf8, line_there] None) 0 1 ''Hello'') = Some UnicodeDecodeError"
    "api_after (generate_stream fresh_api empty_session loads_example
      (Streams [line_hi, line_not_utf8, line_there] None) 0 1 ''Hello'') = fresh_api"
    by simp_all
  have ok: "fragments (generate_stream fresh_api empty_session loads_example
      (Streams [line_hi, line_there] None) 0 1 ''Hello'')
     = [''H'', ''i'', '' '', ''t'', ''h'', ''e'', ''r'', ''e'']"
    by (simp add: generate_stream_completes [OF lookup miss good])
  from bad ok show ?thesis by (intro conjI)
qed

section \<open>Further properties\<close>

lemma process_chunk_raises_only_TypeError:
  "process_chunk loaded acc = Inl e \<Longrightarrow> e = TypeError"
  by (cases acc)
    (auto simp: process_chunk_def Let_def split: json.splits list.splits option.splits)

lemma process_line_returns:
  assumes "\<forall>payload e. loads payload = Inl (LoadsRaised e) \<longrightarrow> e \<in> {KeyError, TypeError, IndexError}"
  shows "\<exists>r. process_line loads line acc = Inr r"
proof (cases "line = [] \<or> line = encode ''data: [DONE]''")
  case True
  then show ?thesis by (auto simp: process_line_def)
next
  case False
  define payload where "payload = (if take 6 line = encode ''data: '' then drop 6 line else line)"
  show ?thesis
  proof (cases "loads payload")
    case (Inl err)
    show ?thesis
    proof (cases err)
      case JSONDecodeError
      with False Inl show ?thesis by (simp add: process_line_def Let_def payload_def [symmetric])
    next
      case (LoadsRaised e)
      with assms Inl have "e \<in> {KeyError, TypeError, IndexError}" by blast
      with False Inl LoadsRaised show ?thesis
        by (simp add: process_line_def Let_def payload_def [symmetric])
    qed
  next
    case (Inr loaded)
    show ?thesis
    proof (cases "process_chunk loaded acc")
      case (Inl e)
      then have "e = TypeError" by (rule process_chunk_raises_only_TypeError)
      with False Inr Inl show ?thesis
        by (simp add: process_line_def Let_def payload_def [symmetric])
    next
      case r: (Inr r)
      obtain ys f n where "r = (ys, f, n)" by (cases r) auto
      with r False Inr show ?thesis
        by (simp add: process_line_def Let_def payload_def [symmetric])
    qed
  qed
qed

lemma stream_loop_no_exception:
  assumes "\<forall>payload e. loads payload = Inl (LoadsRaised e) \<longrightarrow> e \<in> {KeyError, TypeError, IndexError}"
  shows "snd (snd (stream_loop loads lines acc)) = None"
proof (induction lines arbitrary: acc)
  case Nil
  show ?case by simp
next
  case (Cons line lines)
  from process_line_returns [OF assms, of line acc]
  obtain ys f n where r: "process_line loads line acc = Inr (ys, f, n)"
    by (metis prod_cases3)
  obtain zs acc' e where rest: "stream_loop loads lines (f, n) = (zs, acc', e)"
    by (cases "stream_loop loads lines (f, n)") auto
  with Cons.IH [of "(f, n)"] have "e = None" by simp
  with r rest show ?case by simp
qed

lemma stream_loop_append:
  assumes "snd (snd (stream_loop loads xs acc)) = None"
  shows "stream_loop loads (xs @ ys) acc =
     (case stream_loop loads ys (fst (snd (stream_loop loads xs acc))) of
        (later, acc', exc) \<Rightarrow> (fst (stream_loop loads xs acc) @ later, acc', exc))"
  using assms
proof (induction xs arbitrary: acc)
  case Nil
  show ?case by (simp split: prod.splits)
next
  case (Cons line xs)
  show ?case
  proof (cases "process_line loads line acc")
    case (Inl e)
    with Cons.prems show ?thesis by simp
  next
    case (Inr r)
    obtain zs f n where r: "r = (zs, f, n)" by (cases r) auto
    from Cons.prems Inr r have "snd (snd (stream_loop loads xs (f, n))) = None"
      by (simp split: prod.splits)
    from Cons.IH [OF this] Inr r show ?thesis
      by (simp split: prod.splits)
  qed
qed


text \<open>
  The part of chunk-level resilience that the code does deliver. If \<open>json.loads\<close>
  raises nothing but \<open>JSONDecodeError\<close> and the three caught exceptions, no exception
  ever leaves the loop, and the loop over a list of lines is the loop over its first part
  followed by the loop over the rest. A blank line, the line \<open>data: [DONE]\<close> and a line
  that is not JSON yield nothing and leave the accumulated text alone; a line whose
  payload (after the optional \<open>data: \<close> prefix) is a dict with a string under
  \<open>generated_text\<close> yields that string character by character and appends it.
\<close>

theorem malformed_json_lines_are_skipped:
  assumes caught: "\<forall>payload e. loads payload = Inl (LoadsRaised e) \<longrightarrow>
                     e \<in> {KeyError, TypeError, IndexError}"
  shows "snd (snd (stream_loop loads lines acc)) = None \<and>
         stream_loop loads (xs @ ys) acc =
           (case stream_loop loads ys (fst (snd (stream_loop loads xs acc))) of
              (later, acc', exc) \<Rightarrow> (fst (stream_loop loads xs acc) @ later, acc', exc)) \<and>
         (line = [] \<or> line = encode ''data: [DONE]'' \<or>
          loads (if take 6 line = encode ''data: '' then drop 6 line else line) = Inl JSONDecodeError
            \<longrightarrow> process_line loads line acc = Inr ([], acc)) \<and>
         (line \<noteq> [] \<and> line \<noteq> encode ''data: [DONE]'' \<and>
          loads (if take 6 line = encode ''data: '' then drop 6 line else line) = Inr (JDict d) \<and>
          map_of d ''generated_text'' = Some (JStr s)
            \<longrightarrow> process_line loads line (full_response, n)
                  = Inr (map (\<lambda>char. [char]) s, full_response @ s, n + int (split_len s)))"
proof (intro conjI impI)
  show "snd (snd (stream_loop loads lines acc)) = None"
    using caught by (rule stream_loop_no_exception)
  have "snd (snd (stream_loop loads xs acc)) = None"
    using caught by (rule stream_loop_no_exception)
  then show "stream_loop loads (xs @ ys) acc =
           (case stream_loop loads ys (fst (snd (stream_loop loads xs acc))) of
              (later, acc', exc) \<Rightarrow> (fst (stream_loop loads xs acc) @ later, acc', exc))"
    by (rule stream_loop_append)
next
  assume "line = [] \<or> line = encode ''data: [DONE]'' \<or>
          loads (if take 6 line = encode ''data: '' then drop 6 line else line) = Inl JSONDecodeError"
  then show "process_line loads line acc = Inr ([], acc)"
    by (auto simp: process_line_def Let_def)
next
  assume "line \<noteq> [] \<and> line \<noteq> encode ''data: [DONE]'' \<and>
          loads (if take 6 line = encode ''data: '' then drop 6 line else line) = Inr (JDict d) \<and>
          map_of d ''generated_text'' = Some (JStr s)"
  then show "process_line loads line (full_response, n)
                  = Inr (map (\<lambda>char. [char]) s, full_response @ s, n + int (split_len s))"
    by (simp add: process_line_def process_chunk_def Let_def)
qed

lemma chunks_only_payloads:
  "loads_chunks_only line_hi = Inr (JDict [(''generated_text'', JStr ''Hi'')])"
  "loads_chunks_only (drop 6 line_there) = Inr (JDict [(''generated_text'', JStr '' there'')])"
  "loads_chunks_only line_not_json = Inl JSONDecodeError"
  by (simp_all add: line_hi_def line_there_def line_not_json_def
      loads_chunks_only_def encode_def utf8_char_def)

theorem malformed_json_lines_are_skipped_witness:
  "(\<forall>payload e. loads_chunks_only payload = Inl (LoadsRaised e) \<longrightarrow>
                     e \<in> {KeyError, TypeError, IndexError}) \<and>
   snd (snd (stream_loop loads_chunks_only [line_hi, line_not_json, line_there] ([], 0))) = None \<and>
   loads_chunks_only (if take 6 line_not_json = encode ''data: '' then drop 6 line_not_json
                      else line_not_json) = Inl JSONDecodeError \<and>
   process_line loads_chunks_only line_not_json (''Hi'', 1) = Inr ([], (''Hi'', 1)) \<and>
   line_there \<noteq> [] \<and> line_there \<noteq> encode ''data: [DONE]'' \<and>
   loads_chunks_only (if take 6 line_there = encode ''data: '' then drop 6 line_there
                      else line_there) = Inr (JDict [(''generated_text'', JStr '' there'')]) \<and>
   map_of [(''generated_text'', JStr '' there'')] ''generated_text'' = Some (JStr '' there'') \<and>
   process_line loads_chunks_only line_there (''Hi'', 1)
     = Inr (map (\<lambda>char. [char]) '' there'', ''Hi'' @ '' there'', 1 + int (split_len '' there''))"
proof -
  have caught: "\<forall>payload e. loads_chunks_only payload = Inl (LoadsRaised e) \<longrightarrow>
                     e \<in> {KeyError, TypeError, IndexError}"
    by (simp add: loads_chunks_only_def)
  have bad: "loads_chunks_only (if take 6 line_not_json = encode ''data: '' then drop 6 line_not_json
                      else line_not_json) = Inl JSONDecodeError"
    by (simp add: example_payloads chunks_only_payloads)
  have good: "line_there \<noteq> [] \<and> line_there \<noteq> encode ''data: [DONE]'' \<and>
      loads_chunks_only (if take 6 line_there = encode ''data: '' then drop 6 line_there
                      else line_there) = Inr (JDict [(''generated_text'', JStr '' there'')]) \<and>
      map_of [(''generated_text'', JStr '' there'')] ''generated_text'' = Some (JStr '' there'')"
    by (simp add: example_payloads chunks_only_payloads)
  note a = malformed_json_lines_are_skipped [OF caught,
      where lines = "[line_hi, line_not_json, line_there]" and acc = "([], 0)" and line = line_not_json]
  note b = malformed_json_lines_are_skipped [OF caught,
      where line = line_there and d = "[(''generated_text'', JStr '' there'')]" and s = "'' there''"
        and full_response = "''Hi''" and n = 1]
  have c1: "snd (snd (stream_loop loads_chunks_only [line_hi, line_not_json, line_there] ([], 0))) = None"
    by (rule a [THEN conjunct1])
  have "line_not_json = [] \<or> line_not_json = encode ''data: [DONE]'' \<or>
      loads_chunks_only (if take 6 line_not_json = encode ''data: '' then drop 6 line_not_json
                      else line_not_json) = Inl JSONDecodeError"
    using bad by blast
  from mp [OF a [THEN conjunct2, THEN conjunct2, THEN conjunct1] this]
  have "process_line loads_chunks_only line_not_json (([], 0) :: string \<times> int) = Inr ([], ([], 0))" .
  have c2: "process_line loads_chunks_only line_not_json (''Hi'', 1) = Inr ([], (''Hi'', 1))"
    using malformed_json_lines_are_skipped [OF caught,
        where line = line_not_json and acc = "(''Hi'', 1)", THEN conjunct2, THEN conjunct2,
        THEN conjunct1] bad
    by blast
  have c3: "process_line loads_chunks_only line_there (''Hi'', 1)
     = Inr (map (\<lambda>char. [char]) '' there'', ''Hi'' @ '' there'', 1 + int (split_len '' there''))"
    by (rule mp [OF b [THEN conjunct2, THEN conjunct2, THEN conjunct2] good])
  from caught c1 bad c2 good c3 show ?thesis by (intro conjI) blast+
qed

text \<open>
  \<open>setex\<close> returns normally on every store whose capacity is at least 1, whatever the
  key, the value, the \<open>expire_time\<close> and the stored entries; \<open>get\<close> and \<open>clear\<close> have no
  raising path at all.
\<close>

theorem setex_returns_with_positive_capacity:
  assumes "1 \<le> max_size c"
  shows "(\<exists>c'. MemoryCache_setex c now key expire_time val = Inr c') \<and>
         (\<exists>c'. SimpleCache_setex c now key expire_time val = Inr c')"
  using setex_returns_with_capacity [OF assms] by (simp add: SimpleCache_setex_eq)

theorem setex_returns_with_positive_capacity_witness:
  "1 \<le> max_size \<lparr>cache = [], max_size = 1, ttl = 3600\<rparr> \<and>
   (\<exists>c'. MemoryCache_setex \<lparr>cache = [], max_size = 1, ttl = 3600\<rparr> 0 ''k'' 60 ''v'' = Inr c') \<and>
   (\<exists>c'. SimpleCache_setex \<lparr>cache = [], max_size = 1, ttl = 3600\<rparr> 0 ''k'' 60 ''v'' = Inr c')"
proof -
  have h: "1 \<le> max_size \<lparr>cache = [], max_size = 1, ttl = 3600\<rparr>" by simp
  from setex_returns_with_positive_capacity [OF h, of 0 "''k''" 60 "''v''"] h
  show ?thesis by blast
qed

text \<open>
  Window boundary. With nine messages between them and the live prompt, the older
  messages do not reach the key: any two histories that differ only there, and in the
  live prompt's own message, give the same key.
\<close>

theorem older_messages_do_not_reach_key:
  assumes "length recent = 9"
  shows "get_cache_key (st\<lparr>messages := Some (older @ recent @ [cur])\<rparr>) prompt params
       = get_cache_key (st\<lparr>messages := Some (older' @ recent @ [cur'])\<rparr>) prompt params"
proof -
  from assms have w: "length recent \<le> 9" by simp
  have "last_messages (older @ recent @ [cur]) = recent"
    using last_messages_window [OF w, of older cur] assms by simp
  moreover have "last_messages (older' @ recent @ [cur']) = recent"
    using last_messages_window [OF w, of older' cur'] assms by simp
  ultimately have "cache_context (st\<lparr>messages := Some (older @ recent @ [cur])\<rparr>)
      = cache_context (st\<lparr>messages := Some (older' @ recent @ [cur'])\<rparr>)"
    by (simp add: cache_context_def)
  then show ?thesis by (simp only: get_cache_key_def key_content_def)
qed

theorem older_messages_do_not_reach_key_witness:
  "(let recent = replicate 9 \<lparr>role = ''assistant'', content = ''ok''\<rparr>;
        old = \<lparr>role = ''user'', content = ''first''\<rparr>;
        old' = \<lparr>role = ''user'', content = ''changed''\<rparr>;
        cur = \<lparr>role = ''user'', content = ''Hello''\<rparr>
    in length recent = 9 \<and> old \<noteq> old' \<and>
       get_cache_key (empty_session\<lparr>messages := Some ([old] @ recent @ [cur])\<rparr>) ''Hello'' []
       = get_cache_key (empty_session\<lparr>messages := Some ([old'] @ recent @ [cur])\<rparr>) ''Hello'' [])"
proof -
  let ?recent = "replicate 9 \<lparr>role = ''assistant'', content = ''ok''\<rparr>"
  have h: "length ?recent = 9" by simp
  have ne: "\<lparr>role = ''user'', content = ''first''\<rparr> \<noteq> \<lparr>role = ''user'', content = ''changed''\<rparr>"
    by simp
  from older_messages_do_not_reach_key [OF h] h ne show ?thesis
    unfolding Let_def by blast
qed

text \<open>
  The two keys of claim C8 at one input, and what the difference does: the text that
  \<open>generate_stream\<close> cached is found under the streaming key and not under the key
  \<open>generate\<close> looks up.
\<close>

lemma fresh_api_save:
  "save_to_cache fresh_api t key val expire_time
     = fresh_api\<lparr>simple_cache := \<lparr>cache = [(key, val, t)], max_size = 1000, ttl = 3600\<rparr>\<rparr>"
  by (simp add: save_to_cache_def fresh_api_def SimpleCache_setex_def)

theorem stream_key_counterexample:
  "generate_stream_cache_key empty_session ''Hello'' \<noteq> generate_cache_key empty_session ''Hello'' \<and>
   (let r = generate_stream fresh_api empty_session loads_example
              (Streams [line_hi, line_there] None) 0 1 ''Hello''
    in fst (get_from_cache (api_after r) 2 (generate_stream_cache_key empty_session ''Hello''))
         = Some ''Hi there'' \<and>
       fst (get_from_cache (api_after r) 2 (generate_cache_key empty_session ''Hello'')) = None)"
proof -
  have ne: "generate_stream_cache_key empty_session ''Hello'' \<noteq> generate_cache_key empty_session ''Hello''"
    unfolding generate_key_hello generate_stream_key_hello by simp
  have lookup: "get_from_cache fresh_api 0 (generate_stream_cache_key empty_session ''Hello'')
      = (None, fresh_api)"
    by (rule fresh_api_lookup)
  have miss: "None = (None :: string option) \<or> None = Some []" by simp
  have good: "stream_loop loads_example [line_hi, line_there] ([], 0)
      = ([''H'', ''i'', '' '', ''t'', ''h'', ''e'', ''r'', ''e''], (''Hi there'', 2), None)"
    by (simp add: example_lines)
  have after: "api_after (generate_stream fresh_api empty_session loads_example
              (Streams [line_hi, line_there] None) 0 1 ''Hello'')
      = fresh_api\<lparr>simple_cache :=
          \<lparr>cache = [(generate_stream_cache_key empty_session ''Hello'', ''Hi there'', 1)],
           max_size = 1000, ttl = 3600\<rparr>\<rparr>"
    by (simp add: generate_stream_completes [OF lookup miss good] fresh_api_save)
  have own: "fst (get_from_cache (api_after (generate_stream fresh_api empty_session loads_example
              (Streams [line_hi, line_there] None) 0 1 ''Hello'')) 2
        (generate_stream_cache_key empty_session ''Hello'')) = Some ''Hi there''"
    unfolding after by (simp add: get_from_cache_def fresh_api_def SimpleCache_get_def)
  have other: "fst (get_from_cache (api_after (generate_stream fresh_api empty_session loads_example
              (Streams [line_hi, line_there] None) 0 1 ''Hello'')) 2
        (generate_cache_key empty_session ''Hello'')) = None"
    unfolding after using ne by (simp add: get_from_cache_def fresh_api_def SimpleCache_get_def)
  from ne own other show ?thesis unfolding Let_def by (intro conjI)
qed

end
